theory Spec2Isabelle
  imports Main "HOL-Library.Word" "HOL-Library.Multiset"
begin

section \<open>JavaScript values used by the member-detail scripts\<close>

text \<open>
  A JavaScript string is a sequence of UTF-16 code units; the regular expressions of the
  scripts carry no \<open>u\<close> flag, so they work on code units too.
\<close>

type_synonym jsstring = "16 word list"

text \<open>
  A string-valued field of a fetched JSON object: absent (\<open>undefined\<close>), \<open>null\<close>, or a string.
\<close>

datatype jsfield = Undefined | Null | Str jsstring

text \<open>Truthiness of such a field: \<open>undefined\<close>, \<open>null\<close> and the empty string are falsy.\<close>

fun truthy :: "jsfield \<Rightarrow> bool" where
  "truthy (Str s) = (s \<noteq> [])"
| "truthy _ = False"

text \<open>\<open>x ?? d\<close> for a string default \<open>d\<close>.\<close>

fun nullish_or :: "jsfield \<Rightarrow> jsstring \<Rightarrow> jsstring" where
  "nullish_or (Str s) d = s"
| "nullish_or _ d = d"

text \<open>\<open>x || d\<close> for a string default \<open>d\<close>.\<close>

fun falsy_or :: "jsfield \<Rightarrow> jsstring \<Rightarrow> jsstring" where
  "falsy_or (Str s) d = (if s \<noteq> [] then s else d)"
| "falsy_or _ d = d"

definition ascii :: "string \<Rightarrow> jsstring" where
  "ascii s = map (\<lambda>c. word_of_nat (of_char c)) s"

text \<open>The string a template literal \<open>`${x}`\<close> inserts for a field.\<close>

fun template_string :: "jsfield \<Rightarrow> jsstring" where
  "template_string Undefined = ascii ''undefined''"
| "template_string Null = ascii ''null''"
| "template_string (Str s) = s"

section \<open>Data model\<close>

record SpeechRecord =
  date :: jsfield
  nameOfMeeting :: jsfield
  issue :: jsfield
  issueID :: jsfield
  session :: "int option"
  speechOrder :: "int option"
  speech :: jsfield
  speechURL :: jsfield
  meetingURL :: jsfield
  speakerGroup :: jsfield

text \<open>
  The object \<open>groupByMeeting\<close> builds for a key, and a meeting of a pre-grouped payload
  once \<open>render\<close> has defaulted its \<open>speeches\<close>. The fields are those of the source with the
  prefix \<open>g_\<close>, since \<open>date\<close>, \<open>issue\<close> and \<open>session\<close> are fields of a speech record too.
\<close>

record MeetingGroup =
  g_date :: jsfield
  g_meetingName :: jsfield
  g_issue :: jsfield
  g_session :: "int option"
  g_speeches :: "SpeechRecord list"

text \<open>A meeting as a pre-grouped payload \<open>{ meetings: [...] }\<close> carries it: \<open>speeches\<close> may be absent.\<close>

record RawMeeting =
  m_date :: jsfield
  m_meetingName :: jsfield
  m_issue :: jsfield
  m_session :: "int option"
  m_speeches :: "SpeechRecord list option"

section \<open>Array.prototype.sort\<close>

text \<open>
  \<open>xs.sort(cmp)\<close> is a stable sort: with a comparator that orders the elements
  consistently, an element \<open>a\<close> stays in front of a later \<open>b\<close> unless \<open>cmp(a, b) > 0\<close>.
  The embedding is the stable insertion sort.
\<close>

fun js_insert :: "('a \<Rightarrow> 'a \<Rightarrow> int) \<Rightarrow> 'a \<Rightarrow> 'a list \<Rightarrow> 'a list" where
  "js_insert cmp x [] = [x]"
| "js_insert cmp x (y # ys) = (if cmp x y \<le> 0 then x # y # ys else y # js_insert cmp x ys)"

definition js_sort :: "('a \<Rightarrow> 'a \<Rightarrow> int) \<Rightarrow> 'a list \<Rightarrow> 'a list" where
  "js_sort cmp xs = foldr (js_insert cmp) xs []"

section \<open>Page state\<close>

text \<open>
  The texts the scripts write into the page. Each constructor stands for one literal of the
  source (given here in translation).
\<close>

datatype message =
    NoMemberGiven          \<comment> \<open>no slug in the query string\<close>
  | DataNotFound           \<comment> \<open>first script, status 404\<close>
  | NoSpeeches             \<comment> \<open>no matching speeches\<close>
  | NoLeagues              \<comment> \<open>no matching leagues\<close>
  | NoQuestions            \<comment> \<open>no matching written questions\<close>
  | NotRegistered          \<comment> \<open>the speech data of this member is not registered yet\<close>
  | LoadMoreLabel          \<comment> \<open>caption of the load-more button\<close>


text \<open>A roster entry, with the fields the member-detail script reads.\<close>

record MemberProfile =
  p_slug :: jsfield
  p_member_name :: jsfield
  disability_league_count :: "int option"
  disability_leagues :: "jsstring list option"

record WrittenQuestion =
  q_title :: jsfield
  q_session :: "int option"
  q_number :: "int option"
  q_status :: jsfield
  question_html_url :: jsfield
  question_pdf_url :: jsfield
  answer_html_url :: jsfield
  answer_pdf_url :: jsfield
  matched_keywords :: "jsstring list"

text \<open>The two shapes of \<open>data/member_speeches/<slug>.json\<close> and of the roster file.\<close>

record SpeechObject =
  member_name :: jsfield
  meetings :: "RawMeeting list option"
  written_questions :: "WrittenQuestion list option"

datatype payload = PayloadArray "SpeechRecord list" | PayloadObject SpeechObject

datatype roster = RosterArray "MemberProfile list" | RosterObject "MemberProfile list option"

text \<open>
  What \<open>fetch\<close> settles to: a rejection carrying the error's message, or a response with a
  status whose \<open>json()\<close> either rejects or yields the parsed body.
\<close>

datatype 'a json = JsonRejected jsstring | Parsed 'a

datatype 'a fetched = FetchRejected jsstring | Response nat "'a json"

definition ok :: "nat \<Rightarrow> bool" where
  "ok status = (200 \<le> status \<and> status \<le> 299)"

text \<open>The errors \<open>loadData\<close> catches: \<open>new Error(`HTTP ${status}`)\<close> or a rejected promise.\<close>

datatype js_error = HttpError nat | Rejected jsstring

text \<open>What the placeholder of the summary section shows once the script has set it.\<close>

datatype placeholder_text =
    Message message
  | LoadFailed js_error  \<comment> \<open>the generic failure text followed by \<open>error.message\<close>\<close>

text \<open>Which elements \<open>document.querySelector\<close> found when the script started.\<close>

record dom =
  has_placeholder :: bool
  has_memberNameEl :: bool
  has_memberMetaEl :: bool
  has_leagueSection :: bool
  has_leagueList :: bool
  has_leaguePlaceholder :: bool
  has_questionsSection :: bool
  has_questionsPlaceholder :: bool
  has_questionsList :: bool
  has_loadMoreButton :: bool
  has_summarySection :: bool

datatype title_text = SummaryTitle jsstring | FallbackTitle jsstring

datatype meta_text =
    MetaCounts nat nat nat "int option"  \<comment> \<open>questions, speeches, meetings, leagues\<close>
  | MetaSpeechCounts nat nat             \<comment> \<open>first script: speeches, meetings\<close>
  | MetaLeagues int
  | MetaUnregistered                     \<comment> \<open>Diet speech data not registered\<close>

text \<open>
  The module-level variables \<open>meetingGroups\<close> and \<open>visibleCount\<close> and the content of the
  elements the script writes. A text of \<open>None\<close> is the text of the markup, which the script
  has not set. The markup of a card, of a league or of a question is a function of the value
  it is built from; the lists keep those values, in the order of the markup. \<open>speechList\<close> is
  used without a guard in the source and is taken as present.
\<close>

record page =
  meetingGroups :: "MeetingGroup list"
  visibleCount :: nat
  placeholderText :: "placeholder_text option"
  placeholderRemoved :: bool
  memberNameText :: "jsstring option"
  documentTitle :: "title_text option"
  memberMetaText :: "meta_text option"
  leagueSectionHidden :: bool
  leagueListHidden :: bool
  leagueListItems :: "jsstring list"
  leaguePlaceholderText :: "message option"
  leaguePlaceholderRemoved :: bool
  questionsSectionHidden :: bool
  questionsListHidden :: bool
  questionsListItems :: "WrittenQuestion list"
  questionsPlaceholderText :: "message option"
  questionsPlaceholderRemoved :: bool
  speechListHidden :: bool
  speechListItems :: "MeetingGroup list"
  loadMoreHidden :: bool
  loadMoreText :: "message option"
  summaryHtml :: "message option"
  consoleErrors :: "js_error list"

section \<open>Meeting aggregator\<close>

text \<open>
  \<open>record.issueID || `${record.date}_${record.nameOfMeeting}_${record.issue}`\<close>; the
  underscore is code unit 0x5F.
\<close>

definition record_key :: "SpeechRecord \<Rightarrow> jsstring" where
  "record_key r =
     falsy_or (issueID r)
       (template_string (date r) @ [0x5F] @ template_string (nameOfMeeting r) @ [0x5F]
          @ template_string (issue r))"

text \<open>
  A \<open>Map\<close> keeps its entries in insertion order: an association list with at most one entry
  for a key. \<open>map_set\<close> replaces the value of a key that is there and appends a new key.
\<close>

type_synonym 'v jsmap = "(jsstring \<times> 'v) list"

definition map_has :: "'v jsmap \<Rightarrow> jsstring \<Rightarrow> bool" where
  "map_has m k = (k \<in> set (map fst m))"

fun map_set :: "'v jsmap \<Rightarrow> jsstring \<Rightarrow> 'v \<Rightarrow> 'v jsmap" where
  "map_set [] k v = [(k, v)]"
| "map_set ((k', v') # m) k v = (if k' = k then (k, v) # m else (k', v') # map_set m k v)"

text \<open>\<open>map.get(key).speeches.push(record)\<close>: the group stored under the key grows at its end.\<close>

fun push_speech :: "MeetingGroup jsmap \<Rightarrow> jsstring \<Rightarrow> SpeechRecord \<Rightarrow> MeetingGroup jsmap" where
  "push_speech [] k r = []"
| "push_speech ((k', g) # m) k r =
     (if k' = k then (k', g\<lparr>g_speeches := g_speeches g @ [r]\<rparr>) # m
      else (k', g) # push_speech m k r)"

text \<open>The default meeting name, five code units (in translation: meeting name unknown).\<close>

definition unknown_meeting_name :: jsstring where
  "unknown_meeting_name = [0x4F1A, 0x8B70, 0x540D, 0x4E0D, 0x660E]"

definition new_group :: "SpeechRecord \<Rightarrow> MeetingGroup" where
  "new_group r =
     \<lparr>g_date = Str (nullish_or (date r) []),
      g_meetingName = Str (nullish_or (nameOfMeeting r) unknown_meeting_name),
      g_issue = Str (nullish_or (issue r) []),
      g_session = session r,
      g_speeches = []\<rparr>"

text \<open>The body of the \<open>forEach\<close> callback.\<close>

definition group_step :: "MeetingGroup jsmap \<Rightarrow> SpeechRecord \<Rightarrow> MeetingGroup jsmap" where
  "group_step m r =
     (let key = record_key r;
          m' = (if \<not> map_has m key then map_set m key (new_group r) else m)
      in push_speech m' key r)"

definition group_map :: "SpeechRecord list \<Rightarrow> MeetingGroup jsmap" where
  "group_map records = foldl group_step [] records"

text \<open>
  \<open>(a, b) => (b.date || "").localeCompare(a.date || "")\<close>. \<open>localeCompare\<close> is the
  collation of the browser, a parameter \<open>lc\<close> of the model.
\<close>

definition date_desc :: "(jsstring \<Rightarrow> jsstring \<Rightarrow> int) \<Rightarrow> MeetingGroup \<Rightarrow> MeetingGroup \<Rightarrow> int" where
  "date_desc lc a b = lc (falsy_or (g_date b) []) (falsy_or (g_date a) [])"

definition groupByMeeting :: "(jsstring \<Rightarrow> jsstring \<Rightarrow> int) \<Rightarrow> SpeechRecord list \<Rightarrow> MeetingGroup list" where
  "groupByMeeting lc records = js_sort (date_desc lc) (map snd (group_map records))"

text \<open>\<open>{ ...meeting, speeches: meeting.speeches ?? [] }\<close>\<close>

definition with_speeches :: "RawMeeting \<Rightarrow> MeetingGroup" where
  "with_speeches m =
     \<lparr>g_date = m_date m, g_meetingName = m_meetingName m, g_issue = m_issue m,
      g_session = m_session m,
      g_speeches = (case m_speeches m of None \<Rightarrow> [] | Some ss \<Rightarrow> ss)\<rparr>"

definition sort_meetings :: "(jsstring \<Rightarrow> jsstring \<Rightarrow> int) \<Rightarrow> RawMeeting list \<Rightarrow> MeetingGroup list" where
  "sort_meetings lc ms = js_sort (date_desc lc) (map with_speeches ms)"

section \<open>Pager and rendering\<close>

definition PAGE_SIZE :: nat where
  "PAGE_SIZE = 5"

text \<open>\<open>(a, b) => (a.speechOrder ?? 0) - (b.speechOrder ?? 0)\<close>\<close>

definition by_speechOrder :: "SpeechRecord \<Rightarrow> SpeechRecord \<Rightarrow> int" where
  "by_speechOrder a b =
     (case speechOrder a of None \<Rightarrow> 0 | Some n \<Rightarrow> n) - (case speechOrder b of None \<Rightarrow> 0 | Some n \<Rightarrow> n)"

text \<open>
  \<open>renderMeetingCard\<close> sorts \<open>group.speeches\<close> in place, so the group held in
  \<open>meetingGroups\<close> changes with it; the card is kept as that group.
\<close>

definition renderMeetingCard :: "MeetingGroup \<Rightarrow> MeetingGroup" where
  "renderMeetingCard g = g\<lparr>g_speeches := js_sort by_speechOrder (g_speeches g)\<rparr>"

definition renderVisibleGroups :: "page \<Rightarrow> page" where
  "renderVisibleGroups p =
     (let shown = map renderMeetingCard (take (visibleCount p) (meetingGroups p))
      in p\<lparr>meetingGroups := shown @ drop (visibleCount p) (meetingGroups p),
            speechListItems := shown\<rparr>)"

text \<open>The local \<open>hasMore\<close> of \<open>updateLoadMoreButton\<close>.\<close>

definition hasMore :: "page \<Rightarrow> bool" where
  "hasMore p = (visibleCount p < length (meetingGroups p))"

definition updateLoadMoreButton :: "dom \<Rightarrow> page \<Rightarrow> page" where
  "updateLoadMoreButton d p =
     (if \<not> has_loadMoreButton d then p
      else if length (meetingGroups p) \<le> PAGE_SIZE then p\<lparr>loadMoreHidden := True\<rparr>
      else if hasMore p then p\<lparr>loadMoreHidden := False, loadMoreText := Some LoadMoreLabel\<rparr>
      else p\<lparr>loadMoreHidden := True\<rparr>)"

text \<open>
  The pager's \<open>reset\<close>: the two assignments of \<open>render\<close> to \<open>meetingGroups\<close> and
  \<open>visibleCount\<close>. Its \<open>advance\<close>: the assignment of the click handler.
\<close>

definition reset :: "MeetingGroup list \<Rightarrow> page \<Rightarrow> page" where
  "reset groups p = p\<lparr>meetingGroups := groups, visibleCount := min PAGE_SIZE (length groups)\<rparr>"

definition advance :: "page \<Rightarrow> page" where
  "advance p = p\<lparr>visibleCount := min (visibleCount p + PAGE_SIZE) (length (meetingGroups p))\<rparr>"

text \<open>The click handler of the load-more button.\<close>

definition loadMore_click :: "dom \<Rightarrow> page \<Rightarrow> page" where
  "loadMore_click d p = updateLoadMoreButton d (renderVisibleGroups (advance p))"


text \<open>\<open>(a, b) => { ... }\<close> of \<open>renderWrittenQuestions\<close>.\<close>

definition question_order :: "WrittenQuestion \<Rightarrow> WrittenQuestion \<Rightarrow> int" where
  "question_order a b =
     (let sessionDiff = (case q_session b of None \<Rightarrow> 0 | Some n \<Rightarrow> n)
                        - (case q_session a of None \<Rightarrow> 0 | Some n \<Rightarrow> n)
      in if sessionDiff \<noteq> 0 then sessionDiff
         else (case q_number b of None \<Rightarrow> 0 | Some n \<Rightarrow> n)
              - (case q_number a of None \<Rightarrow> 0 | Some n \<Rightarrow> n))"

definition renderWrittenQuestions :: "dom \<Rightarrow> WrittenQuestion list \<Rightarrow> page \<Rightarrow> page" where
  "renderWrittenQuestions d items p =
     (if \<not> has_questionsSection d \<or> \<not> has_questionsList d then p
      else if items = [] then
        (if has_questionsPlaceholder d then p\<lparr>questionsPlaceholderText := Some NoQuestions\<rparr> else p)
          \<lparr>questionsSectionHidden := False, questionsListHidden := True\<rparr>
      else
        (if has_questionsPlaceholder d then p\<lparr>questionsPlaceholderRemoved := True\<rparr> else p)
          \<lparr>questionsListHidden := False, questionsSectionHidden := False,
           questionsListItems := js_sort question_order items\<rparr>)"

definition renderDisabilityLeagues :: "dom \<Rightarrow> jsstring list \<Rightarrow> page \<Rightarrow> page" where
  "renderDisabilityLeagues d items p =
     (if \<not> has_leagueSection d \<or> \<not> has_leagueList d then p
      else if items = [] then
        (if has_leaguePlaceholder d
         then p\<lparr>leagueSectionHidden := False, leaguePlaceholderText := Some NoLeagues\<rparr>
         else p\<lparr>leagueSectionHidden := False\<rparr>)
          \<lparr>leagueListHidden := True\<rparr>
      else
        (if has_leaguePlaceholder d
         then p\<lparr>leagueSectionHidden := False, leaguePlaceholderRemoved := True\<rparr>
         else p\<lparr>leagueSectionHidden := False\<rparr>)
          \<lparr>leagueListHidden := False, leagueListItems := items\<rparr>)"

text \<open>A chain \<open>a ?? b ?? ... ?? d\<close> ending in a string literal.\<close>

fun coalesce :: "jsfield list \<Rightarrow> jsstring \<Rightarrow> jsstring" where
  "coalesce [] d = d"
| "coalesce (Str s # fs) d = s"
| "coalesce (f # fs) d = coalesce fs d"

text \<open>The default member name, two code units (in translation: member).\<close>

definition default_member_name :: jsstring where
  "default_member_name = [0x8B70, 0x54E1]"

text \<open>\<open>profile?.member_name\<close>, \<open>profile?.disability_league_count\<close>, \<open>profile?.disability_leagues ?? []\<close>\<close>

definition profile_member_name :: "MemberProfile option \<Rightarrow> jsfield" where
  "profile_member_name profile = (case profile of None \<Rightarrow> Undefined | Some pr \<Rightarrow> p_member_name pr)"

definition profile_league_count :: "MemberProfile option \<Rightarrow> int option" where
  "profile_league_count profile = (case profile of None \<Rightarrow> None | Some pr \<Rightarrow> disability_league_count pr)"

definition profile_leagues :: "MemberProfile option \<Rightarrow> jsstring list" where
  "profile_leagues profile =
     (case profile of None \<Rightarrow> []
      | Some pr \<Rightarrow> (case disability_leagues pr of None \<Rightarrow> [] | Some ls \<Rightarrow> ls))"

definition set_placeholder :: "dom \<Rightarrow> placeholder_text \<Rightarrow> page \<Rightarrow> page" where
  "set_placeholder d t p = (if has_placeholder d then p\<lparr>placeholderText := Some t\<rparr> else p)"

definition remove_placeholder :: "dom \<Rightarrow> page \<Rightarrow> page" where
  "remove_placeholder d p = (if has_placeholder d then p\<lparr>placeholderRemoved := True\<rparr> else p)"

text \<open>
  The branch of \<open>render\<close> for a payload that is an object: name, title, counts, leagues and
  written questions.
\<close>

definition render_header :: "dom \<Rightarrow> jsfield \<Rightarrow> SpeechObject \<Rightarrow> MemberProfile option \<Rightarrow> page \<Rightarrow> page" where
  "render_header d slug obj profile p =
     (let memberName = coalesce [member_name obj, profile_member_name profile, slug] default_member_name;
          groupData = (case meetings obj of None \<Rightarrow> [] | Some ms \<Rightarrow> ms);
          meetingCount = length groupData;
          speechCount = foldl (\<lambda>sum meeting. sum + (case m_speeches meeting of None \<Rightarrow> 0 | Some ss \<Rightarrow> length ss))
                          0 groupData;
          writtenQuestions = (case written_questions obj of None \<Rightarrow> [] | Some qs \<Rightarrow> qs);
          questionCount = length writtenQuestions;
          p1 = (if has_memberNameEl d then p\<lparr>memberNameText := Some memberName\<rparr> else p);
          p2 = p1\<lparr>documentTitle := Some (SummaryTitle memberName)\<rparr>;
          p3 = (if has_memberMetaEl d
                then p2\<lparr>memberMetaText :=
                        Some (MetaCounts questionCount speechCount meetingCount (profile_league_count profile))\<rparr>
                else p2)
      in renderWrittenQuestions d writtenQuestions (renderDisabilityLeagues d (profile_leagues profile) p3))"

text \<open>
  \<open>groupData.length === 0\<close>, where \<open>groupData\<close> is the array payload itself or
  \<open>records.meetings ?? []\<close>, and the value \<open>render\<close> assigns to \<open>meetingGroups\<close>.
\<close>

definition payload_empty :: "payload \<Rightarrow> bool" where
  "payload_empty records =
     (case records of
        PayloadArray rs \<Rightarrow> rs = []
      | PayloadObject obj \<Rightarrow> (case meetings obj of None \<Rightarrow> True | Some ms \<Rightarrow> ms = []))"

definition payload_groups :: "(jsstring \<Rightarrow> jsstring \<Rightarrow> int) \<Rightarrow> payload \<Rightarrow> MeetingGroup list" where
  "payload_groups lc records =
     (case records of
        PayloadArray rs \<Rightarrow> groupByMeeting lc rs
      | PayloadObject obj \<Rightarrow> sort_meetings lc (case meetings obj of None \<Rightarrow> [] | Some ms \<Rightarrow> ms))"

definition render :: "(jsstring \<Rightarrow> jsstring \<Rightarrow> int) \<Rightarrow> dom \<Rightarrow> jsfield \<Rightarrow> payload \<Rightarrow> MemberProfile option \<Rightarrow> page \<Rightarrow> page" where
  "render lc d slug records profile p =
     (let p1 = (case records of
                  PayloadObject obj \<Rightarrow> render_header d slug obj profile p
                | PayloadArray rs \<Rightarrow>
                    (if has_memberNameEl d \<and> truthy slug
                     then p\<lparr>memberNameText := Some (falsy_or slug [])\<rparr> else p))
      in if payload_empty records then
           (let p2 = (set_placeholder d (Message NoSpeeches) p1)\<lparr>meetingGroups := []\<rparr>
            in if has_loadMoreButton d then p2\<lparr>loadMoreHidden := True\<rparr> else p2)
         else
           (let p2 = (remove_placeholder d p1)\<lparr>speechListHidden := False\<rparr>
            in updateLoadMoreButton d (renderVisibleGroups (reset (payload_groups lc records) p2))))"

definition renderFallback :: "dom \<Rightarrow> jsfield \<Rightarrow> MemberProfile option \<Rightarrow> page \<Rightarrow> page" where
  "renderFallback d slug profile p =
     (let memberName = coalesce [profile_member_name profile, slug] default_member_name;
          p1 = (if has_memberNameEl d then p\<lparr>memberNameText := Some memberName\<rparr> else p);
          p2 = p1\<lparr>documentTitle := Some (FallbackTitle memberName)\<rparr>;
          p3 = (if has_memberMetaEl d
                then p2\<lparr>memberMetaText :=
                        Some (case profile_league_count profile of
                                Some n \<Rightarrow> MetaLeagues n | None \<Rightarrow> MetaUnregistered)\<rparr>
                else p2);
          p4 = renderDisabilityLeagues d (profile_leagues profile) p3;
          p5 = (if has_questionsSection d then p4\<lparr>questionsSectionHidden := True\<rparr> else p4);
          p6 = (if has_summarySection d then p5\<lparr>summaryHtml := Some NotRegistered\<rparr> else p5);
          p7 = remove_placeholder d p6
      in if has_loadMoreButton d then p7\<lparr>loadMoreHidden := True\<rparr> else p7)"

text \<open>The \<open>catch\<close> block of \<open>loadData\<close>.\<close>

definition catch_error :: "dom \<Rightarrow> js_error \<Rightarrow> page \<Rightarrow> page" where
  "catch_error d e p = set_placeholder d (LoadFailed e) (p\<lparr>consoleErrors := consoleErrors p @ [e]\<rparr>)"

text \<open>\<open>rosterList.find((entry) => entry.slug === slug) ?? null\<close>, for a slug that is a string.\<close>

definition find_profile :: "jsstring \<Rightarrow> MemberProfile list \<Rightarrow> MemberProfile option" where
  "find_profile slug rosterList = find (\<lambda>entry. p_slug entry = Str slug) rosterList"

definition roster_list :: "roster \<Rightarrow> MemberProfile list" where
  "roster_list rosterPayload =
     (case rosterPayload of
        RosterArray l \<Rightarrow> l
      | RosterObject ms \<Rightarrow> (case ms of None \<Rightarrow> [] | Some l \<Rightarrow> l))"

text \<open>
  \<open>loadData\<close>, given what the two fetches settle to. The roster fetch carries
  \<open>.catch(() => null)\<close>: its rejection is the value \<open>null\<close>. A rejection of the speech
  fetch rejects \<open>Promise.all\<close>, whatever the roster fetch does.
\<close>

definition loadData ::
  "(jsstring \<Rightarrow> jsstring \<Rightarrow> int) \<Rightarrow> dom \<Rightarrow> jsfield \<Rightarrow> payload fetched \<Rightarrow> roster fetched \<Rightarrow> page \<Rightarrow> page" where
  "loadData lc d slug speechFetch rosterFetch p =
     (if \<not> truthy slug then set_placeholder d (Message NoMemberGiven) p
      else case speechFetch of
        FetchRejected msg \<Rightarrow> catch_error d (Rejected msg) p
      | Response status body \<Rightarrow>
          (case (case rosterFetch of
                   FetchRejected msg \<Rightarrow> Inr None
                 | Response rstatus rbody \<Rightarrow>
                     (if ok rstatus then
                        (case rbody of
                           JsonRejected msg \<Rightarrow> Inl (Rejected msg)
                         | Parsed rosterPayload \<Rightarrow>
                             Inr (find_profile (falsy_or slug []) (roster_list rosterPayload)))
                      else Inr None)) of
             Inl e \<Rightarrow> catch_error d e p
           | Inr memberProfile \<Rightarrow>
               (if status = 404 then renderFallback d slug memberProfile p
                else if \<not> ok status then catch_error d (HttpError status) p
                else case body of
                       JsonRejected msg \<Rightarrow> catch_error d (Rejected msg) p
                     | Parsed records \<Rightarrow> render lc d slug records memberProfile p)))"


section \<open>The first member-detail script\<close>

text \<open>
  The file holds two member-detail scripts. The second one is modelled above; of the first
  one, which knows neither roster nor leagues nor written questions, the functions that
  differ follow, with the suffix \<open>1\<close>. Its \<open>extractSummary\<close>, \<open>groupByMeeting\<close>,
  \<open>renderMeetingCard\<close> and \<open>renderVisibleGroups\<close> are those of the second script.
\<close>

definition updateLoadMoreButton1 :: "dom \<Rightarrow> page \<Rightarrow> page" where
  "updateLoadMoreButton1 d p =
     (if \<not> has_loadMoreButton d then p
      else if hasMore p then p\<lparr>loadMoreHidden := False, loadMoreText := Some LoadMoreLabel\<rparr>
      else p\<lparr>loadMoreHidden := True\<rparr>)"

definition loadMore_click1 :: "dom \<Rightarrow> page \<Rightarrow> page" where
  "loadMore_click1 d p = updateLoadMoreButton1 d (renderVisibleGroups (advance p))"

definition render_header1 :: "dom \<Rightarrow> jsfield \<Rightarrow> SpeechObject \<Rightarrow> page \<Rightarrow> page" where
  "render_header1 d slug obj p =
     (let memberName = coalesce [member_name obj, slug] default_member_name;
          groupData = (case meetings obj of None \<Rightarrow> [] | Some ms \<Rightarrow> ms);
          meetingCount = length groupData;
          speechCount = foldl (\<lambda>sum meeting. sum + (case m_speeches meeting of None \<Rightarrow> 0 | Some ss \<Rightarrow> length ss))
                          0 groupData;
          p1 = (if has_memberNameEl d then p\<lparr>memberNameText := Some memberName\<rparr> else p);
          p2 = p1\<lparr>documentTitle := Some (SummaryTitle memberName)\<rparr>
      in if has_memberMetaEl d
         then p2\<lparr>memberMetaText := Some (MetaSpeechCounts speechCount meetingCount)\<rparr>
         else p2)"

definition render1 :: "(jsstring \<Rightarrow> jsstring \<Rightarrow> int) \<Rightarrow> dom \<Rightarrow> jsfield \<Rightarrow> payload \<Rightarrow> page \<Rightarrow> page" where
  "render1 lc d slug records p =
     (let p1 = (case records of
                  PayloadObject obj \<Rightarrow> render_header1 d slug obj p
                | PayloadArray rs \<Rightarrow>
                    (if has_memberNameEl d \<and> truthy slug
                     then p\<lparr>memberNameText := Some (falsy_or slug [])\<rparr> else p))
      in if payload_empty records then set_placeholder d (Message NoSpeeches) p1
         else
           (let p2 = (remove_placeholder d p1)\<lparr>speechListHidden := False\<rparr>
            in updateLoadMoreButton1 d (renderVisibleGroups (reset (payload_groups lc records) p2))))"

definition loadData1 ::
  "(jsstring \<Rightarrow> jsstring \<Rightarrow> int) \<Rightarrow> dom \<Rightarrow> jsfield \<Rightarrow> payload fetched \<Rightarrow> page \<Rightarrow> page" where
  "loadData1 lc d slug speechFetch p =
     (if \<not> truthy slug then set_placeholder d (Message NoMemberGiven) p
      else case speechFetch of
        FetchRejected msg \<Rightarrow> catch_error d (Rejected msg) p
      | Response status body \<Rightarrow>
          (if status = 404 then set_placeholder d (Message DataNotFound) p
           else if \<not> ok status then catch_error d (HttpError status) p
           else case body of
                  JsonRejected msg \<Rightarrow> catch_error d (Rejected msg) p
                | Parsed records \<Rightarrow> render1 lc d slug records p))"

section \<open>Text summarizer\<close>

text \<open>
  The code units the pattern names: the white circle that opens a speaker marker, the
  ideographic (full-width) space, the ASCII space, the ideographic full stop and the
  horizontal ellipsis.
\<close>

definition circle :: "16 word" where "circle = 0x25CB"
definition wide_space :: "16 word" where "wide_space = 0x3000"
definition space :: "16 word" where "space = 0x20"
definition full_stop :: "16 word" where "full_stop = 0x3002"
definition ellipsis :: "16 word" where "ellipsis = 0x2026"

text \<open>The class \<open>\s\<close>, which is also what \<open>trim\<close> strips, and the line terminators.\<close>

definition is_space :: "16 word \<Rightarrow> bool" where
  "is_space c =
     (c \<in> {0x09, 0x0A, 0x0B, 0x0C, 0x0D, 0x20, 0xA0, 0x1680, 0x2028, 0x2029, 0x202F, 0x205F,
            0x3000, 0xFEFF}
      \<or> (0x2000 \<le> c \<and> c \<le> 0x200A))"

definition is_line_terminator :: "16 word \<Rightarrow> bool" where
  "is_line_terminator c = (c \<in> {0x0A, 0x0D, 0x2028, 0x2029})"

text \<open>The class \<open>[^<wide space><space>]\<close> of the marker's name.\<close>

definition name_char :: "16 word \<Rightarrow> bool" where
  "name_char c = (c \<noteq> wide_space \<and> c \<noteq> space)"

text \<open>
  \<open>text.replace(/^<circle>[^<wide space><space>]+<wide space>?/gm, "")\<close> as a scan from left
  to right. \<open>Line b\<close>: no match is open, and \<open>b\<close> tells whether the position is the start
  of a line (index 0, or the code unit before it is a line terminator), where \<open>^\<close> matches
  under the flag \<open>m\<close>. A match opens at a circle on a line start that a name code unit
  follows. \<open>Name\<close>: the scan is inside the name of an open match; the greedy \<open>+\<close> takes every
  code unit up to the next wide or ASCII space, line terminators included, a wide space
  there belongs to the match, and the scan goes on behind the match, where the code unit in
  front is the wide space or the one at hand is the ASCII space.
\<close>

datatype scan_mode = Line bool | Name

fun strip_markers :: "scan_mode \<Rightarrow> jsstring \<Rightarrow> jsstring" where
  "strip_markers mode [] = []"
| "strip_markers (Line b) (c # cs) =
     (if b \<and> c = circle \<and> (case cs of [] \<Rightarrow> False | n # _ \<Rightarrow> name_char n)
      then strip_markers Name cs
      else c # strip_markers (Line (is_line_terminator c)) cs)"
| "strip_markers Name (c # cs) =
     (if c = wide_space then strip_markers (Line False) cs
      else if c = space then c # strip_markers (Line False) cs
      else strip_markers Name cs)"

text \<open>
  \<open>.replace(/\s+/g, " ")\<close>; \<open>prev\<close> tells whether the code unit in front belongs to the
  run of white space already replaced.
\<close>

fun collapse_spaces :: "bool \<Rightarrow> jsstring \<Rightarrow> jsstring" where
  "collapse_spaces prev [] = []"
| "collapse_spaces prev (c # cs) =
     (if is_space c then (if prev then collapse_spaces True cs else space # collapse_spaces True cs)
      else c # collapse_spaces False cs)"

definition trim :: "jsstring \<Rightarrow> jsstring" where
  "trim s = rev (dropWhile is_space (rev (dropWhile is_space s)))"

text \<open>The constant \<open>clean\<close> of both summarizers.\<close>

definition clean_text :: "jsstring \<Rightarrow> jsstring" where
  "clean_text text = trim (collapse_spaces False (strip_markers (Line True) text))"

text \<open>\<open>extractSummary\<close> of the member-detail scripts.\<close>

definition extractSummary :: "jsfield \<Rightarrow> jsstring" where
  "extractSummary text =
     (if \<not> truthy text then []
      else let clean = clean_text (falsy_or text [])
           in take 100 clean @ (if length clean > 100 then [ellipsis] else []))"

text \<open>\<open>s.split(sep)\<close> for a separator of one code unit, and \<open>parts.join(sep)\<close>.\<close>

fun split :: "16 word \<Rightarrow> jsstring \<Rightarrow> jsstring list" where
  "split sep [] = [[]]"
| "split sep (c # cs) =
     (if c = sep then [] # split sep cs
      else (case split sep cs of [] \<Rightarrow> [[c]] | x # xs \<Rightarrow> (c # x) # xs))"

fun join :: "16 word \<Rightarrow> jsstring list \<Rightarrow> jsstring" where
  "join sep [] = []"
| "join sep [x] = x"
| "join sep (x # xs) = x @ sep # join sep xs"

text \<open>\<open>extractSummary\<close> of \<open>hino.js\<close>, the single-table view.\<close>

definition extractSummary_hino :: "jsfield \<Rightarrow> jsstring" where
  "extractSummary_hino text =
     (if \<not> truthy text then []
      else let clean = clean_text (falsy_or text []);
               parts = filter (\<lambda>part. part \<noteq> []) (split full_stop clean);
               firstTwo = join full_stop (take 2 parts)
           in trim (if firstTwo \<noteq> [] then firstTwo @ [full_stop] else clean))"

text \<open>
  \<open>/^<circle>[^<wide space><space>]+<wide space>?/m.test(s)\<close>: the marker pattern occurs at
  the start of a line of \<open>s\<close>; \<open>b\<close> as for \<open>Line b\<close>.
\<close>

fun marker_at_line_start :: "bool \<Rightarrow> jsstring \<Rightarrow> bool" where
  "marker_at_line_start b [] = False"
| "marker_at_line_start b (c # cs) =
     ((b \<and> c = circle \<and> (case cs of [] \<Rightarrow> False | n # _ \<Rightarrow> name_char n))
      \<or> marker_at_line_start (is_line_terminator c) cs)"


section \<open>Start of the script, and values for the examples\<close>

text \<open>\<open>let meetingGroups = []; let visibleCount = 0;\<close>\<close>

definition script_start :: "page \<Rightarrow> bool" where
  "script_start p = (meetingGroups p = [] \<and> visibleCount p = 0)"

text \<open>
  A page at the start of the script whose markup hides nothing and sets no text, and a
  document in which every element the script looks for is there.
\<close>

definition blank_page :: page where
  "blank_page =
     \<lparr>meetingGroups = [], visibleCount = 0, placeholderText = None, placeholderRemoved = False,
      memberNameText = None, documentTitle = None, memberMetaText = None,
      leagueSectionHidden = False, leagueListHidden = False, leagueListItems = [],
      leaguePlaceholderText = None, leaguePlaceholderRemoved = False,
      questionsSectionHidden = False, questionsListHidden = False, questionsListItems = [],
      questionsPlaceholderText = None, questionsPlaceholderRemoved = False,
      speechListHidden = False, speechListItems = [], loadMoreHidden = False,
      loadMoreText = None, summaryHtml = None, consoleErrors = []\<rparr>"

definition full_dom :: dom where
  "full_dom =
     \<lparr>has_placeholder = True, has_memberNameEl = True, has_memberMetaEl = True,
      has_leagueSection = True, has_leagueList = True, has_leaguePlaceholder = True,
      has_questionsSection = True, has_questionsPlaceholder = True, has_questionsList = True,
      has_loadMoreButton = True, has_summarySection = True\<rparr>"

text \<open>A meeting of a pre-grouped payload with the given date and no other field.\<close>

definition meeting_on :: "jsfield \<Rightarrow> RawMeeting" where
  "meeting_on dt =
     \<lparr>m_date = dt, m_meetingName = Undefined, m_issue = Undefined, m_session = None,
      m_speeches = None\<rparr>"

definition six_meetings :: payload where
  "six_meetings =
     PayloadObject \<lparr>member_name = Undefined, meetings = Some (replicate 6 (meeting_on Undefined)),
       written_questions = None\<rparr>"

text \<open>
  A collation for the examples: the order of the code units, which orders dates of the form
  year-month-day, written with digits, by time.
\<close>

fun code_unit_order :: "jsstring \<Rightarrow> jsstring \<Rightarrow> int" where
  "code_unit_order [] [] = 0"
| "code_unit_order [] (y # ys) = - 1"
| "code_unit_order (x # xs) [] = 1"
| "code_unit_order (x # xs) (y # ys) =
     (if x < y then - 1 else if y < x then 1 else code_unit_order xs ys)"

section \<open>Notions the properties are stated with\<close>

text \<open>The keys of the records a group holds.\<close>

definition key_set :: "MeetingGroup \<Rightarrow> jsstring set" where
  "key_set g = record_key ` set (g_speeches g)"

text \<open>The date the comparator of both sorts reads off a group: \<open>g.date || ""\<close>.\<close>

definition display_date :: "MeetingGroup \<Rightarrow> jsstring" where
  "display_date g = falsy_or (g_date g) []"


text \<open>
  The state of the map while \<open>groupByMeeting\<close> runs over the records \<open>rs\<close>: no key
  twice, every group non-empty, holding records of its key only and carrying the date, name,
  issue and session of its first record, the keys those of \<open>rs\<close>, the records those of
  \<open>rs\<close>.
\<close>

definition all_speeches :: "MeetingGroup jsmap \<Rightarrow> SpeechRecord list" where
  "all_speeches m = concat (map (\<lambda>e. g_speeches (snd e)) m)"

definition grouped :: "MeetingGroup jsmap \<Rightarrow> SpeechRecord list \<Rightarrow> bool" where
  "grouped m rs \<longleftrightarrow>
     distinct (map fst m)
     \<and> (\<forall>(k, g) \<in> set m.
           g_speeches g \<noteq> [] \<and> (\<forall>r \<in> set (g_speeches g). record_key r = k)
           \<and> g = (new_group (hd (g_speeches g)))\<lparr>g_speeches := g_speeches g\<rparr>)
     \<and> set (map fst m) = record_key ` set rs
     \<and> mset (all_speeches m) = mset rs"

text \<open>\<open>q.session ?? 0\<close> and \<open>q.number ?? 0\<close>\<close>

definition question_session :: "WrittenQuestion \<Rightarrow> int" where
  "question_session q = (case q_session q of None \<Rightarrow> 0 | Some n \<Rightarrow> n)"

definition question_number :: "WrittenQuestion \<Rightarrow> int" where
  "question_number q = (case q_number q of None \<Rightarrow> 0 | Some n \<Rightarrow> n)"

text \<open>
  No white circle of the text stands directly behind a white-space code unit that is not a
  line terminator; \<open>blank\<close> tells whether the code unit in front is such a one.
\<close>

fun circles_clear_of_blanks :: "bool \<Rightarrow> jsstring \<Rightarrow> bool" where
  "circles_clear_of_blanks blank [] = True"
| "circles_clear_of_blanks blank (c # cs) =
     ((c = circle \<longrightarrow> \<not> blank)
      \<and> circles_clear_of_blanks (is_space c \<and> \<not> is_line_terminator c) cs)"

text \<open>
  The first code unit of the text that is not white space is a white circle, and a code unit
  that is not white space follows it.
\<close>

definition marker_leads :: "jsstring \<Rightarrow> bool" where
  "marker_leads s =
     (case dropWhile is_space s of c # n # _ \<Rightarrow> c = circle \<and> \<not> is_space n | _ \<Rightarrow> False)"

text \<open>
  A speech for the examples: a marker (circle, two code units of a name, wide space), two
  code units, a line feed and a wide space, four more code units ending in a full stop.
\<close>

definition marked_speech :: jsstring where
  "marked_speech =
     [0x25CB, 0x7530, 0x4E2D, 0x3000, 0x3053, 0x3093, 0x0A, 0x3000, 0x306B, 0x3061, 0x306F, 0x3002]"

text \<open>
  The summary of the single-table view as the specification words it: the first two
  segments of the cleaned text split on the full stop, joined again by the full stop, with a
  trailing full stop; read once with every segment of the split, once with the non-empty
  segments only. Both are compared with \<open>extractSummary_hino\<close> below.
\<close>

definition first_two_segments :: "jsstring \<Rightarrow> jsstring" where
  "first_two_segments clean = join full_stop (take 2 (split full_stop clean)) @ [full_stop]"

definition first_two_sentences :: "jsstring \<Rightarrow> jsstring" where
  "first_two_sentences clean =
     join full_stop (take 2 (filter (\<lambda>part. part \<noteq> []) (split full_stop clean))) @ [full_stop]"

text \<open>A speech of three sentences behind a marker, for the examples.\<close>

definition three_sentences :: jsstring where
  "three_sentences =
     [0x25CB, 0x7530, 0x4E2D, 0x3000, 0x3053, 0x3093, 0x3002, 0x6B21, 0x3082, 0x3002, 0x307E,
      0x305F, 0x3002]"

text \<open>Records and questions for the examples.\<close>

definition speech_on :: "jsfield \<Rightarrow> jsfield \<Rightarrow> int option \<Rightarrow> jsfield \<Rightarrow> SpeechRecord" where
  "speech_on iid dt ord txt =
     \<lparr>date = dt, nameOfMeeting = Undefined, issue = Undefined, issueID = iid, session = None,
      speechOrder = ord, speech = txt, speechURL = Undefined, meetingURL = Undefined,
      speakerGroup = Undefined\<rparr>"

definition example_records :: "SpeechRecord list" where
  "example_records =
     [speech_on (Str (ascii ''A'')) (Str (ascii ''2024-01-10'')) (Some 2) Undefined,
      speech_on Undefined (Str (ascii ''2024-03-01'')) (Some 1) Undefined,
      speech_on (Str (ascii ''A'')) (Str (ascii ''2024-01-10'')) (Some 1) Undefined,
      speech_on Undefined Undefined None Undefined,
      speech_on (Str (ascii ''B'')) Null (Some 4) Undefined]"

definition profile_of :: "jsstring \<Rightarrow> int option \<Rightarrow> jsstring list option \<Rightarrow> MemberProfile" where
  "profile_of s n ls =
     \<lparr>p_slug = Str s, p_member_name = Undefined, disability_league_count = n,
      disability_leagues = ls\<rparr>"

definition example_roster :: roster where
  "example_roster =
     RosterObject (Some [profile_of (ascii ''b'') None None,
                         profile_of (ascii ''a'') (Some 2) (Some [ascii ''L1'', ascii ''L2''])])"

definition question_of :: "int option \<Rightarrow> int option \<Rightarrow> WrittenQuestion" where
  "question_of s n =
     \<lparr>q_title = Undefined, q_session = s, q_number = n, q_status = Undefined,
      question_html_url = Undefined, question_pdf_url = Undefined, answer_html_url = Undefined,
      answer_pdf_url = Undefined, matched_keywords = []\<rparr>"

definition example_questions :: "WrittenQuestion list" where
  "example_questions =
     [question_of (Some 212) (Some 7), question_of None (Some 3), question_of (Some 213) None,
      question_of (Some 212) (Some 15)]"

section \<open>Properties of the sort\<close>

lemma length_js_insert [simp]: "length (js_insert cmp x ys) = Suc (length ys)"
  by (induction ys) simp_all

lemma length_js_sort [simp]: "length (js_sort cmp xs) = length xs"
  by (induction xs) (simp_all add: js_sort_def)

lemma mset_js_insert [simp]: "mset (js_insert cmp x ys) = add_mset x (mset ys)"
  by (induction ys) simp_all

lemma mset_js_sort [simp]: "mset (js_sort cmp xs) = mset xs"
  by (induction xs) (simp_all add: js_sort_def)

lemma set_js_sort [simp]: "set (js_sort cmp xs) = set xs"
  using mset_js_sort [of cmp xs] by (metis set_mset_mset)

section \<open>The pager\<close>

lemma pager_renderVisibleGroups [simp]:
  "length (meetingGroups (renderVisibleGroups p)) = length (meetingGroups p)"
  "visibleCount (renderVisibleGroups p) = visibleCount p"
  by (simp_all add: renderVisibleGroups_def Let_def)

lemma pager_updateLoadMoreButton [simp]:
  "meetingGroups (updateLoadMoreButton d p) = meetingGroups p"
  "visibleCount (updateLoadMoreButton d p) = visibleCount p"
  by (simp_all add: updateLoadMoreButton_def)

lemma pager_advance [simp]:
  "meetingGroups (advance p) = meetingGroups p"
  "visibleCount (advance p) = min (visibleCount p + PAGE_SIZE) (length (meetingGroups p))"
  by (simp_all add: advance_def)

lemma pager_reset [simp]:
  "meetingGroups (reset groups p) = groups"
  "visibleCount (reset groups p) = min PAGE_SIZE (length groups)"
  by (simp_all add: reset_def)

lemma pager_loadMore_click [simp]:
  "length (meetingGroups (loadMore_click d p)) = length (meetingGroups p)"
  "visibleCount (loadMore_click d p) = min (visibleCount p + PAGE_SIZE) (length (meetingGroups p))"
  by (simp_all add: loadMore_click_def)

lemma pager_set_placeholder [simp]:
  "meetingGroups (set_placeholder d t p) = meetingGroups p"
  "visibleCount (set_placeholder d t p) = visibleCount p"
  by (simp_all add: set_placeholder_def)

lemma pager_remove_placeholder [simp]:
  "meetingGroups (remove_placeholder d p) = meetingGroups p"
  "visibleCount (remove_placeholder d p) = visibleCount p"
  by (simp_all add: remove_placeholder_def)

lemma pager_catch_error [simp]:
  "meetingGroups (catch_error d e p) = meetingGroups p"
  "visibleCount (catch_error d e p) = visibleCount p"
  by (simp_all add: catch_error_def)

lemma pager_renderWrittenQuestions [simp]:
  "meetingGroups (renderWrittenQuestions d qs p) = meetingGroups p"
  "visibleCount (renderWrittenQuestions d qs p) = visibleCount p"
  by (simp_all add: renderWrittenQuestions_def)

lemma pager_renderDisabilityLeagues [simp]:
  "meetingGroups (renderDisabilityLeagues d ls p) = meetingGroups p"
  "visibleCount (renderDisabilityLeagues d ls p) = visibleCount p"
  by (simp_all add: renderDisabilityLeagues_def)

lemma pager_render_header [simp]:
  "meetingGroups (render_header d slug obj profile p) = meetingGroups p"
  "visibleCount (render_header d slug obj profile p) = visibleCount p"
  by (simp_all add: render_header_def Let_def)

lemma pager_renderFallback [simp]:
  "meetingGroups (renderFallback d slug profile p) = meetingGroups p"
  "visibleCount (renderFallback d slug profile p) = visibleCount p"
  by (simp_all add: renderFallback_def Let_def)

lemma pager_render:
  "\<not> payload_empty records \<Longrightarrow>
   visibleCount (render lc d slug records profile p) = min PAGE_SIZE (length (payload_groups lc records))"
  "\<not> payload_empty records \<Longrightarrow>
   length (meetingGroups (render lc d slug records profile p)) = length (payload_groups lc records)"
  "payload_empty records \<Longrightarrow> meetingGroups (render lc d slug records profile p) = []"
  "payload_empty records \<Longrightarrow> visibleCount (render lc d slug records profile p) = visibleCount p"
  by (simp_all add: render_def Let_def split: payload.splits)

lemma render_bounded:
  "visibleCount p = 0 \<Longrightarrow>
   visibleCount (render lc d slug records profile p)
     \<le> length (meetingGroups (render lc d slug records profile p))"
  by (cases "payload_empty records") (simp_all add: pager_render)

lemma loadData_bounded:
  "script_start p \<Longrightarrow>
   visibleCount (loadData lc d slug sf rf p) \<le> length (meetingGroups (loadData lc d slug sf rf p))"
  by (auto simp add: loadData_def script_start_def render_bounded
      split: fetched.splits json.splits sum.splits)

lemma clicks_bounded:
  "visibleCount p \<le> length (meetingGroups p) \<Longrightarrow>
   visibleCount ((loadMore_click d ^^ n) p) \<le> length (meetingGroups ((loadMore_click d ^^ n) p))"
  by (induction n) simp_all

lemma clicks_idle:
  "visibleCount p = length (meetingGroups p) \<Longrightarrow>
   visibleCount ((loadMore_click d ^^ k) p) = visibleCount p
   \<and> length (meetingGroups ((loadMore_click d ^^ k) p)) = length (meetingGroups p)"
  by (induction k) simp_all

lemma payload_groups_empty: "payload_empty records \<Longrightarrow> payload_groups lc records = []"
  by (auto simp: payload_empty_def payload_groups_def groupByMeeting_def group_map_def
      sort_meetings_def js_sort_def split: payload.splits option.splits)

text \<open>
  C3. With the page size 5: the reset of \<open>render\<close> sets \<open>visibleCount\<close> to
  \<open>min 5 (length groups)\<close>, every advance (the assignment alone, and the whole click handler)
  sets it to \<open>min (visibleCount + 5) (length meetingGroups)\<close>, and \<open>hasMore\<close> holds exactly
  when \<open>visibleCount < length meetingGroups\<close>. \<open>render\<close>, called at the start of the script
  or with a payload that has a record or a meeting, leaves the pager as this reset with the
  groups of the payload does. For a list of 12 groups the reset gives 5 with more to come,
  the first advance 10 with more to come, the second advance 12 with nothing more.
\<close>

theorem pager_reset_advance_hasMore:
  "visibleCount (reset groups p) = min 5 (length groups)
   \<and> visibleCount (advance p) = min (visibleCount p + 5) (length (meetingGroups p))
   \<and> visibleCount (loadMore_click d p) = min (visibleCount p + 5) (length (meetingGroups p))
   \<and> hasMore p = (visibleCount p < length (meetingGroups p))
   \<and> (script_start p \<or> \<not> payload_empty records \<longrightarrow>
        visibleCount (render lc d slug records profile p) = min 5 (length (payload_groups lc records))
        \<and> length (meetingGroups (render lc d slug records profile p))
            = length (payload_groups lc records))
   \<and> (length groups = 12 \<longrightarrow>
        visibleCount (reset groups p) = 5 \<and> hasMore (reset groups p)
        \<and> visibleCount (advance (reset groups p)) = 10 \<and> hasMore (advance (reset groups p))
        \<and> visibleCount (advance (advance (reset groups p))) = 12
        \<and> \<not> hasMore (advance (advance (reset groups p))))"
  by (cases "payload_empty records")
    (simp_all add: hasMore_def PAGE_SIZE_def pager_render payload_groups_empty script_start_def)

theorem pager_reset_advance_hasMore_witness:
  "script_start blank_page \<and> \<not> payload_empty six_meetings
   \<and> visibleCount (render code_unit_order full_dom Null six_meetings None blank_page) = 5
   \<and> length (meetingGroups (render code_unit_order full_dom Null six_meetings None blank_page)) = 6
   \<and> length (replicate 12 (with_speeches (meeting_on Undefined))) = 12
   \<and> visibleCount (advance (advance (reset (replicate 12 (with_speeches (meeting_on Undefined)))
        blank_page))) = 12"
proof -
  have s: "script_start blank_page"
    by (simp add: script_start_def blank_page_def)
  have ne: "\<not> payload_empty six_meetings"
    by (simp add: payload_empty_def six_meetings_def)
  have six: "length (payload_groups code_unit_order six_meetings) = 6"
    by (simp add: payload_groups_def sort_meetings_def six_meetings_def)
  from pager_reset_advance_hasMore [of "replicate 12 (with_speeches (meeting_on Undefined))"
      blank_page full_dom six_meetings code_unit_order Null None] s ne six
  show ?thesis
    by (simp add: PAGE_SIZE_def)
qed

text \<open>
  C4. In a state the page can reach (the start of the script, the state \<open>loadData\<close> leaves,
  and either after any number of clicks) in which \<open>hasMore\<close> is false, an advance leaves
  \<open>visibleCount\<close> as it is, and so does any number of further clicks.
\<close>

theorem advance_idempotent_without_more:
  assumes "script_start p0"
    and "p = (loadMore_click d ^^ n) (loadData lc d slug sf rf p0) \<or> p = (loadMore_click d ^^ n) p0"
    and "\<not> hasMore p"
  shows "visibleCount (advance p) = visibleCount p
         \<and> visibleCount ((loadMore_click d ^^ k) p) = visibleCount p"
proof -
  have "visibleCount p \<le> length (meetingGroups p)"
    using assms(1,2) clicks_bounded [OF loadData_bounded [OF assms(1)]]
      clicks_bounded [where p = p0 and d = d and n = n]
    by (auto simp: script_start_def)
  with assms(3) have eq: "visibleCount p = length (meetingGroups p)"
    by (simp add: hasMore_def)
  then show ?thesis using clicks_idle [OF eq] by simp
qed


theorem advance_idempotent_without_more_witness:
  "script_start blank_page
   \<and> \<not> hasMore ((loadMore_click full_dom ^^ Suc 0)
        (loadData code_unit_order full_dom (Str (ascii ''a''))
           (Response 200 (Parsed six_meetings)) (FetchRejected []) blank_page))
   \<and> visibleCount ((loadMore_click full_dom ^^ 3) ((loadMore_click full_dom ^^ Suc 0)
        (loadData code_unit_order full_dom (Str (ascii ''a''))
           (Response 200 (Parsed six_meetings)) (FetchRejected []) blank_page))) = 6"
proof -
  have s: "script_start blank_page"
    by (simp add: script_start_def blank_page_def)
  have h: "\<not> hasMore ((loadMore_click full_dom ^^ Suc 0)
        (loadData code_unit_order full_dom (Str (ascii ''a''))
           (Response 200 (Parsed six_meetings)) (FetchRejected []) blank_page))"
    by (simp add: hasMore_def loadData_def ok_def ascii_def pager_render payload_empty_def
        six_meetings_def payload_groups_def sort_meetings_def PAGE_SIZE_def)
  have v: "visibleCount ((loadMore_click full_dom ^^ Suc 0)
        (loadData code_unit_order full_dom (Str (ascii ''a''))
           (Response 200 (Parsed six_meetings)) (FetchRejected []) blank_page)) = 6"
    by (simp add: hasMore_def loadData_def ok_def ascii_def pager_render payload_empty_def
        six_meetings_def payload_groups_def sort_meetings_def PAGE_SIZE_def)
  from advance_idempotent_without_more [OF s disjI1 [OF refl] h, where k = 3] s h v
  show ?thesis by simp
qed


section \<open>Sorting with a consistent comparator\<close>

lemma set_js_insert [simp]: "set (js_insert cmp x ys) = insert x (set ys)"
  by (induction ys) auto

lemma sorted_js_insert:
  assumes total: "\<And>a b. cmp a b \<le> 0 \<or> cmp b a \<le> 0"
    and trans: "\<And>a b c. cmp a b \<le> 0 \<Longrightarrow> cmp b c \<le> 0 \<Longrightarrow> cmp a c \<le> 0"
  shows "sorted_wrt (\<lambda>a b. cmp a b \<le> 0) ys \<Longrightarrow> sorted_wrt (\<lambda>a b. cmp a b \<le> 0) (js_insert cmp x ys)"
proof (induction ys)
  case Nil
  then show ?case by simp
next
  case (Cons y ys)
  show ?case
  proof (cases "cmp x y \<le> 0")
    case True
    with Cons.prems trans show ?thesis by auto
  next
    case False
    with total have "cmp y x \<le> 0" by blast
    with False Cons show ?thesis by auto
  qed
qed

lemma sorted_js_sort:
  assumes total: "\<And>a b. cmp a b \<le> 0 \<or> cmp b a \<le> 0"
    and trans: "\<And>a b c. cmp a b \<le> 0 \<Longrightarrow> cmp b c \<le> 0 \<Longrightarrow> cmp a c \<le> 0"
  shows "sorted_wrt (\<lambda>a b. cmp a b \<le> 0) (js_sort cmp xs)"
proof (induction xs)
  case Nil
  show ?case by (simp add: js_sort_def)
next
  case (Cons x xs)
  have "js_sort cmp (x # xs) = js_insert cmp x (js_sort cmp xs)"
    by (simp add: js_sort_def)
  with sorted_js_insert [of cmp, OF total trans Cons.IH] show ?case by simp
qed




section \<open>The meeting aggregator\<close>

lemma map_set_new: "k \<notin> set (map fst m) \<Longrightarrow> map_set m k v = m @ [(k, v)]"
  by (induction m k v rule: map_set.induct) auto

lemma keys_push_speech [simp]: "map fst (push_speech m k r) = map fst m"
  by (induction m k r rule: push_speech.induct) auto

lemma push_speech_last:
  "k \<notin> set (map fst m) \<Longrightarrow>
   push_speech (m @ [(k, g)]) k r = m @ [(k, g\<lparr>g_speeches := g_speeches g @ [r]\<rparr>)]"
  by (induction m k r rule: push_speech.induct) auto

lemma set_push_speech:
  "distinct (map fst m) \<Longrightarrow> (k', g') \<in> set (push_speech m k r) \<Longrightarrow>
   (k' \<noteq> k \<and> (k', g') \<in> set m)
   \<or> (k' = k \<and> (\<exists>g. (k, g) \<in> set m \<and> g' = g\<lparr>g_speeches := g_speeches g @ [r]\<rparr>))"
  by (induction m k r rule: push_speech.induct) (auto split: if_splits simp: image_iff)

lemma all_speeches_push_speech:
  "k \<in> set (map fst m) \<Longrightarrow>
   mset (all_speeches (push_speech m k r)) = add_mset r (mset (all_speeches m))"
  by (induction m k r rule: push_speech.induct) (auto simp: all_speeches_def)

lemma new_group_grown:
  "g_speeches g \<noteq> [] \<Longrightarrow> g = (new_group (hd (g_speeches g)))\<lparr>g_speeches := g_speeches g\<rparr> \<Longrightarrow>
   g\<lparr>g_speeches := g_speeches g @ [r]\<rparr>
     = (new_group (hd (g_speeches g @ [r])))\<lparr>g_speeches := g_speeches g @ [r]\<rparr>"
  by (cases "g_speeches g") (auto simp: new_group_def)

lemma grouped_step:
  assumes "grouped m rs"
  shows "grouped (group_step m r) (rs @ [r])"
proof (cases "map_has m (record_key r)")
  case True
  then have k: "record_key r \<in> set (map fst m)" by (simp add: map_has_def)
  have step: "group_step m r = push_speech m (record_key r) r"
    using True by (simp add: group_step_def)
  have "\<forall>(k, g) \<in> set (push_speech m (record_key r) r).
          g_speeches g \<noteq> [] \<and> (\<forall>r \<in> set (g_speeches g). record_key r = k)
          \<and> g = (new_group (hd (g_speeches g)))\<lparr>g_speeches := g_speeches g\<rparr>"
  proof (clarify)
    fix k' g' assume in_push: "(k', g') \<in> set (push_speech m (record_key r) r)"
    have d: "distinct (map fst m)" using assms by (simp add: grouped_def)
    from set_push_speech [OF d in_push]
    show "g_speeches g' \<noteq> [] \<and> (\<forall>r \<in> set (g_speeches g'). record_key r = k')
          \<and> g' = (new_group (hd (g_speeches g')))\<lparr>g_speeches := g_speeches g'\<rparr>"
    proof
      assume "k' \<noteq> record_key r \<and> (k', g') \<in> set m"
      with assms show ?thesis by (fastforce simp: grouped_def)
    next
      assume "k' = record_key r
        \<and> (\<exists>g. (record_key r, g) \<in> set m \<and> g' = g\<lparr>g_speeches := g_speeches g @ [r]\<rparr>)"
      then obtain g where k': "k' = record_key r" and g: "(record_key r, g) \<in> set m"
        and g': "g' = g\<lparr>g_speeches := g_speeches g @ [r]\<rparr>" by blast
      from assms g have ne: "g_speeches g \<noteq> []"
        and keys: "\<forall>r' \<in> set (g_speeches g). record_key r' = record_key r"
        and first: "g = (new_group (hd (g_speeches g)))\<lparr>g_speeches := g_speeches g\<rparr>"
        by (auto simp: grouped_def)
      from new_group_grown [OF ne first, of r] keys
      show ?thesis by (simp add: g' k')
    qed
  qed
  then show ?thesis
    using assms k by (auto simp: step grouped_def all_speeches_push_speech)
next
  case False
  then have k: "record_key r \<notin> set (map fst m)" by (simp add: map_has_def)
  have step: "group_step m r = m @ [(record_key r, (new_group r)\<lparr>g_speeches := [r]\<rparr>)]"
    using False k by (simp add: group_step_def map_set_new push_speech_last new_group_def)
  show ?thesis
    using assms k by (auto simp: step grouped_def all_speeches_def new_group_def)
qed

lemma grouped_foldl:
  "grouped m rs \<Longrightarrow> grouped (foldl group_step m rs') (rs @ rs')"
proof (induction rs' arbitrary: m rs)
  case Nil then show ?case by simp
next
  case (Cons r rs')
  from Cons.IH [OF grouped_step [OF Cons.prems, of r]] show ?case by simp
qed

lemma grouped_group_map: "grouped (group_map rs) rs"
  using grouped_foldl [of "[]" "[]" rs] by (simp add: grouped_def group_map_def all_speeches_def)


lemma mset_concat_map:
  "mset (concat (map f xs)) = \<Sum>\<^sub># (image_mset (\<lambda>x. mset (f x)) (mset xs))"
  by (induction xs) simp_all

lemma mset_concat_cong:
  "mset xs = mset ys \<Longrightarrow> mset (concat (map f xs)) = mset (concat (map f ys))"
  by (simp add: mset_concat_map)

lemma lead_key_group_map:
  assumes "grouped m rs"
  shows "map (\<lambda>g. record_key (hd (g_speeches g))) (map snd m) = map fst m"
proof -
  have "\<forall>(k, g) \<in> set m. record_key (hd (g_speeches g)) = k"
    using assms by (auto simp: grouped_def)
  then show ?thesis by (induction m) auto
qed

text \<open>
  C1. For every sequence of speech records and every collation, the groups
  \<open>groupByMeeting\<close> returns hold records of one key each (the issue id when it is a
  non-empty string, else the composite of date, meeting name and issue), groups at different
  positions have different keys, the keys of the groups are exactly the keys of the input,
  so there is one group per distinct key, and the speech lists of the groups together have
  as many records as the input; indeed they hold the records of the input, each once.
\<close>

theorem groupByMeeting_partition:
  "(\<forall>g \<in> set (groupByMeeting lc records). \<exists>k. key_set g = {k})
   \<and> (\<forall>i j. i < j \<and> j < length (groupByMeeting lc records) \<longrightarrow>
         key_set (groupByMeeting lc records ! i) \<inter> key_set (groupByMeeting lc records ! j) = {})
   \<and> (\<Union>g \<in> set (groupByMeeting lc records). key_set g) = record_key ` set records
   \<and> length (groupByMeeting lc records) = card (record_key ` set records)
   \<and> sum_list (map (\<lambda>g. length (g_speeches g)) (groupByMeeting lc records)) = length records
   \<and> mset (concat (map g_speeches (groupByMeeting lc records))) = mset records"
proof -
  define m where "m = group_map records"
  define out where "out = groupByMeeting lc records"
  let ?lead = "\<lambda>g. record_key (hd (g_speeches g))"
  have g: "grouped m records" unfolding m_def by (rule grouped_group_map)
  have perm: "mset out = mset (map snd m)"
    by (simp add: out_def m_def groupByMeeting_def)
  then have set_out: "set out = snd ` set m"
    by (metis set_mset_mset set_map)
  have single: "key_set g = {?lead g}" if "g \<in> set out" for g
  proof -
    from that set_out obtain k where "(k, g) \<in> set m" by auto
    with g have "g_speeches g \<noteq> []" "\<forall>r \<in> set (g_speeches g). record_key r = k"
      by (auto simp: grouped_def)
    then show ?thesis by (cases "g_speeches g") (auto simp: key_set_def)
  qed
  have leads: "mset (map ?lead out) = mset (map fst m)"
    using perm lead_key_group_map [OF g] by (metis mset_map)
  have dm: "distinct (map fst m)" using g by (simp add: grouped_def)
  with leads have dist: "distinct (map ?lead out)"
    by (metis mset_eq_imp_distinct_iff)
  have disjoint: "key_set (out ! i) \<inter> key_set (out ! j) = {}" if "i < j" "j < length out" for i j
  proof -
    from that dist have "?lead (out ! i) \<noteq> ?lead (out ! j)"
      by (auto simp: distinct_conv_nth)
    with that show ?thesis by (simp add: single)
  qed
  have union: "(\<Union>g \<in> set out. key_set g) = record_key ` set records"
  proof -
    have "(\<Union>g \<in> set out. key_set g) = set (map ?lead out)"
      by (auto simp: single)
    also have "\<dots> = set (map fst m)"
      using leads by (metis set_mset_mset)
    finally show ?thesis using g by (simp add: grouped_def)
  qed
  have len: "length out = card (record_key ` set records)"
  proof -
    have "length out = length (map fst m)"
      by (simp add: out_def m_def groupByMeeting_def)
    also have "\<dots> = card (set (map fst m))"
      using dm by (simp only: distinct_card)
    finally show ?thesis using g by (simp add: grouped_def)
  qed
  have all: "mset (concat (map g_speeches out)) = mset records"
  proof -
    have "mset (concat (map g_speeches out)) = mset (concat (map g_speeches (map snd m)))"
      by (rule mset_concat_cong [OF perm])
    also have "\<dots> = mset records"
      using g by (simp add: grouped_def all_speeches_def comp_def)
    finally show ?thesis .
  qed
  have "sum_list (map (\<lambda>g. length (g_speeches g)) out) = length (concat (map g_speeches out))"
    by (simp add: length_concat comp_def)
  also have "\<dots> = length records"
    using all by (metis size_mset)
  finally have total: "sum_list (map (\<lambda>g. length (g_speeches g)) out) = length records" .
  show ?thesis
    using single disjoint union len all total unfolding out_def by blast
qed

lemmas example_eval =
  groupByMeeting_def group_map_def group_step_def map_has_def record_key_def new_group_def
  js_sort_def date_desc_def ascii_def example_records_def speech_on_def Let_def

theorem groupByMeeting_partition_witness:
  "groupByMeeting code_unit_order example_records ! 0
     \<in> set (groupByMeeting code_unit_order example_records)
   \<and> (0::nat) < 1 \<and> 1 < length (groupByMeeting code_unit_order example_records)
   \<and> (\<exists>k. key_set (groupByMeeting code_unit_order example_records ! 0) = {k})
   \<and> key_set (groupByMeeting code_unit_order example_records ! 0)
       \<inter> key_set (groupByMeeting code_unit_order example_records ! 1) = {}
   \<and> length (groupByMeeting code_unit_order example_records) = 4
   \<and> sum_list (map (\<lambda>g. length (g_speeches g)) (groupByMeeting code_unit_order example_records)) = 5"
proof -
  let ?out = "groupByMeeting code_unit_order example_records"
  have len: "length ?out = 4"
    by (simp add: example_eval)
  have n: "length example_records = 5"
    by (simp add: example_records_def)
  from len have mem: "?out ! 0 \<in> set ?out"
    by (simp add: nth_mem)
  note t = groupByMeeting_partition [of code_unit_order example_records]
  from t have "\<forall>g \<in> set ?out. \<exists>k. key_set g = {k}"
    by (rule conjunct1)
  then have single: "\<exists>k. key_set (?out ! 0) = {k}"
    using mem by (rule bspec)
  from t have "\<forall>i j. i < j \<and> j < length ?out \<longrightarrow> key_set (?out ! i) \<inter> key_set (?out ! j) = {}"
    by (rule conjunct1 [OF conjunct2])
  then have "0 < (1::nat) \<and> 1 < length ?out \<longrightarrow> key_set (?out ! 0) \<inter> key_set (?out ! 1) = {}"
    by (elim allE)
  with len have disjoint: "key_set (?out ! 0) \<inter> key_set (?out ! 1) = {}"
    by simp
  from t have "sum_list (map (\<lambda>g. length (g_speeches g)) ?out) = length example_records"
    by simp
  with n have total: "sum_list (map (\<lambda>g. length (g_speeches g)) ?out) = 5"
    by simp
  from mem single disjoint len total show ?thesis by simp
qed


section \<open>Order of the groups\<close>



lemma display_date_renderMeetingCard [simp]:
  "display_date (renderMeetingCard g) = display_date g"
  by (simp add: display_date_def renderMeetingCard_def)



lemma speechListItems_updateLoadMoreButton [simp]:
  "speechListItems (updateLoadMoreButton d p) = speechListItems p"
  by (simp add: updateLoadMoreButton_def)







section \<open>Written questions\<close>

lemma question_order_le:
  "(question_order a b \<le> 0)
   = (question_session b < question_session a
      \<or> (question_session a = question_session b \<and> question_number b \<le> question_number a))"
  by (auto simp: question_order_def question_session_def question_number_def Let_def)

lemma sorted_questions:
  "sorted_wrt (\<lambda>a b. question_session b < question_session a
      \<or> (question_session a = question_session b \<and> question_number b \<le> question_number a))
     (js_sort question_order qs)"
proof -
  have total: "question_order a b \<le> 0 \<or> question_order b a \<le> 0" for a b
    unfolding question_order_le by linarith
  have trans: "question_order a b \<le> 0 \<Longrightarrow> question_order b c \<le> 0 \<Longrightarrow> question_order a c \<le> 0" for a b c
    unfolding question_order_le by linarith
  have "sorted_wrt (\<lambda>a b. question_order a b \<le> 0) (js_sort question_order qs)"
    by (rule sorted_js_sort [OF total trans])
  then show ?thesis by (simp add: question_order_le)
qed

lemma questions_renderWrittenQuestions:
  "has_questionsSection d \<Longrightarrow> has_questionsList d \<Longrightarrow> items \<noteq> [] \<Longrightarrow>
   questionsListItems (renderWrittenQuestions d items p) = js_sort question_order items
   \<and> \<not> questionsListHidden (renderWrittenQuestions d items p)
   \<and> \<not> questionsSectionHidden (renderWrittenQuestions d items p)"
  by (simp add: renderWrittenQuestions_def)

lemma questions_render:
  "questionsListItems (render lc d slug (PayloadObject obj) profile p)
     = questionsListItems (render_header d slug obj profile p)
   \<and> questionsListHidden (render lc d slug (PayloadObject obj) profile p)
     = questionsListHidden (render_header d slug obj profile p)
   \<and> questionsSectionHidden (render lc d slug (PayloadObject obj) profile p)
     = questionsSectionHidden (render_header d slug obj profile p)"
  by (simp add: render_def Let_def set_placeholder_def remove_placeholder_def
      updateLoadMoreButton_def renderVisibleGroups_def reset_def)

lemma questions_render_header:
  "has_questionsSection d \<Longrightarrow> has_questionsList d \<Longrightarrow> items \<noteq> [] \<Longrightarrow>
   written_questions obj = Some items \<Longrightarrow>
   questionsListItems (render_header d slug obj profile p) = js_sort question_order items"
  by (simp add: render_header_def Let_def questions_renderWrittenQuestions)

text \<open>
  C10. For a non-empty list of written questions, in a document that has the questions
  section and list, the list \<open>renderWrittenQuestions\<close> renders (called on its own or by
  \<open>render\<close> for an object payload) holds the questions given, sorted by session descending
  and, within a session, by number descending, a missing session or number counting as 0.
\<close>

theorem written_questions_sorted:
  assumes "has_questionsSection d" and "has_questionsList d" and "items \<noteq> []"
    and "out = questionsListItems (renderWrittenQuestions d items p)
         \<or> (written_questions obj = Some items
            \<and> out = questionsListItems (render lc d slug (PayloadObject obj) profile p))"
  shows "mset out = mset items
     \<and> sorted_wrt (\<lambda>a b. question_session b < question_session a
          \<or> (question_session a = question_session b \<and> question_number b \<le> question_number a)) out
     \<and> (\<forall>i. Suc i < length out \<longrightarrow>
           question_session (out ! Suc i) < question_session (out ! i)
           \<or> (question_session (out ! i) = question_session (out ! Suc i)
               \<and> question_number (out ! Suc i) \<le> question_number (out ! i)))"
proof -
  have out: "out = js_sort question_order items"
    using assms(4) questions_renderWrittenQuestions [OF assms(1-3)]
      questions_render_header [OF assms(1-3)]
    by (auto simp: questions_render)
  have s: "sorted_wrt (\<lambda>a b. question_session b < question_session a
          \<or> (question_session a = question_session b \<and> question_number b \<le> question_number a)) out"
    unfolding out by (rule sorted_questions)
  then have "\<forall>i. Suc i < length out \<longrightarrow>
           question_session (out ! Suc i) < question_session (out ! i)
           \<or> (question_session (out ! i) = question_session (out ! Suc i)
               \<and> question_number (out ! Suc i) \<le> question_number (out ! i))"
    by (simp add: sorted_wrt_iff_nth_less)
  with s out show ?thesis by simp
qed

theorem written_questions_sorted_witness:
  "has_questionsSection full_dom \<and> has_questionsList full_dom \<and> example_questions \<noteq> []
   \<and> map (\<lambda>q. (question_session q, question_number q))
        (questionsListItems (renderWrittenQuestions full_dom example_questions blank_page))
      = [(213, 0), (212, 15), (212, 7), (0, 3)]
   \<and> mset (questionsListItems (renderWrittenQuestions full_dom example_questions blank_page))
      = mset example_questions
   \<and> Suc 1 < length (questionsListItems (renderWrittenQuestions full_dom example_questions blank_page))
   \<and> question_number
        (questionsListItems (renderWrittenQuestions full_dom example_questions blank_page) ! Suc 1)
      \<le> question_number
        (questionsListItems (renderWrittenQuestions full_dom example_questions blank_page) ! 1)"
proof -
  let ?out = "questionsListItems (renderWrittenQuestions full_dom example_questions blank_page)"
  have h1: "has_questionsSection full_dom" and h2: "has_questionsList full_dom"
    by (simp_all add: full_dom_def)
  have h3: "example_questions \<noteq> []"
    by (simp add: example_questions_def)
  have keys: "map (\<lambda>q. (question_session q, question_number q)) ?out
      = [(213, 0), (212, 15), (212, 7), (0, 3)]"
    by (simp add: renderWrittenQuestions_def full_dom_def example_questions_def question_of_def
        js_sort_def question_order_def question_session_def question_number_def)
  have "length (map (\<lambda>q. (question_session q, question_number q)) ?out) = 4"
    unfolding keys by simp
  then have len: "length ?out = 4"
    by simp
  have nth: "(question_session (?out ! i), question_number (?out ! i))
      = map (\<lambda>q. (question_session q, question_number q)) ?out ! i" if "i < 4" for i
    using that len by simp
  have k1: "(question_session (?out ! 1), question_number (?out ! 1)) = (212, 15)"
    and k2: "(question_session (?out ! Suc 1), question_number (?out ! Suc 1)) = (212, 7)"
    using nth [of 1] nth [of "Suc 1"] by (simp_all add: keys)
  note t = written_questions_sorted [OF h1 h2 h3 disjI1 [OF refl], of blank_page]
  from t have perm: "mset ?out = mset example_questions"
    by (rule conjunct1)
  from t have "\<forall>i. Suc i < length ?out \<longrightarrow>
      question_session (?out ! Suc i) < question_session (?out ! i)
      \<or> (question_session (?out ! i) = question_session (?out ! Suc i)
          \<and> question_number (?out ! Suc i) \<le> question_number (?out ! i))"
    by (rule conjunct2 [OF conjunct2])
  then have "Suc 1 < length ?out \<longrightarrow>
      question_session (?out ! Suc 1) < question_session (?out ! 1)
      \<or> (question_session (?out ! 1) = question_session (?out ! Suc 1)
          \<and> question_number (?out ! Suc 1) \<le> question_number (?out ! 1))"
    by (rule spec)
  with len k1 k2 have adj: "question_number (?out ! Suc 1) \<le> question_number (?out ! 1)"
    by simp
  from h1 h2 h3 keys perm len adj show ?thesis
    by simp
qed


section \<open>Loading: roster failure and the fallback\<close>

lemmas page_ops =
  render_def render_header_def renderWrittenQuestions_def renderDisabilityLeagues_def
  set_placeholder_def remove_placeholder_def updateLoadMoreButton_def renderVisibleGroups_def
  reset_def renderFallback_def catch_error_def Let_def

lemma ok_not_404: "ok status \<Longrightarrow> status \<noteq> 404"
  by (auto simp: ok_def)

lemma loadData_roster_failure:
  assumes "truthy slug"
    and "rosterFetch = FetchRejected msg \<or> (rosterFetch = Response rstatus rbody \<and> \<not> ok rstatus)"
    and "ok status"
  shows "loadData lc d slug (Response status (Parsed records)) rosterFetch p
         = render lc d slug records None p"
  using assms ok_not_404 [OF assms(3)] by (auto simp: loadData_def)

lemma loadData_no_match:
  assumes "truthy slug" and "ok status"
  shows "loadData lc d slug (Response status (Parsed records))
           (Response 200 (Parsed (RosterArray []))) p
         = render lc d slug records None p"
  using assms ok_not_404 [OF assms(2)]
  by (simp add: loadData_def ok_def roster_list_def find_profile_def)

lemma render_console [simp]:
  "consoleErrors (render lc d slug records profile p) = consoleErrors p"
  by (simp add: page_ops split: payload.splits)

lemma render_placeholderText:
  "placeholderText (render lc d slug records profile p)
   = (if payload_empty records \<and> has_placeholder d then Some (Message NoSpeeches)
      else placeholderText p)"
  by (simp add: page_ops split: payload.splits)

lemma render_speechList:
  "\<not> payload_empty records \<Longrightarrow>
   speechListItems (render lc d slug records profile p)
     = map renderMeetingCard (take 5 (payload_groups lc records))
   \<and> \<not> speechListHidden (render lc d slug records profile p)"
  by (simp add: page_ops PAGE_SIZE_def min_def split: payload.splits)

lemma render_no_profile:
  "leagueListItems (render lc d slug records None p) = leagueListItems p"
  "records = PayloadObject obj \<Longrightarrow> has_memberMetaEl d \<Longrightarrow>
   \<exists>q s m. memberMetaText (render lc d slug records None p) = Some (MetaCounts q s m None)"
  "records = PayloadArray rs \<Longrightarrow>
   memberMetaText (render lc d slug records None p) = memberMetaText p"
  by (simp_all add: page_ops profile_leagues_def profile_league_count_def split: payload.splits)

text \<open>
  C7. When the roster fetch fails, by rejection or with a status that is not OK, and the
  speech fetch answers with an OK status and a parsed payload, \<open>loadData\<close> is
  \<open>render\<close> of the payload with no profile, the same page as for a roster without the
  slug. Nothing is logged, the placeholder gets no failure text (it changes only to the
  no-speeches text, for a payload without groups), the cards of the payload are shown, no
  league list is written and the meta line carries no league count.
\<close>

theorem roster_failure_is_no_profile:
  assumes "truthy slug"
    and "rosterFetch = FetchRejected msg \<or> (rosterFetch = Response rstatus rbody \<and> \<not> ok rstatus)"
    and "ok status"
    and "after = loadData lc d slug (Response status (Parsed records)) rosterFetch p"
  shows "after = render lc d slug records None p
     \<and> after = loadData lc d slug (Response status (Parsed records))
                 (Response 200 (Parsed (RosterArray []))) p
     \<and> consoleErrors after = consoleErrors p
     \<and> placeholderText after
         = (if payload_empty records \<and> has_placeholder d then Some (Message NoSpeeches)
            else placeholderText p)
     \<and> (\<forall>e. placeholderText p \<noteq> Some (LoadFailed e) \<longrightarrow> placeholderText after \<noteq> Some (LoadFailed e))
     \<and> (\<not> payload_empty records \<longrightarrow>
          speechListItems after = map renderMeetingCard (take 5 (payload_groups lc records))
          \<and> \<not> speechListHidden after)
     \<and> leagueListItems after = leagueListItems p
     \<and> (\<forall>obj. records = PayloadObject obj \<and> has_memberMetaEl d \<longrightarrow>
          (\<exists>q s m. memberMetaText after = Some (MetaCounts q s m None)))"
proof -
  have r: "after = render lc d slug records None p"
    unfolding assms(4) by (rule loadData_roster_failure [OF assms(1-3)])
  have n: "after = loadData lc d slug (Response status (Parsed records))
                 (Response 200 (Parsed (RosterArray []))) p"
    unfolding r by (rule loadData_no_match [OF assms(1,3), symmetric])
  have tail: "consoleErrors after = consoleErrors p
     \<and> placeholderText after
         = (if payload_empty records \<and> has_placeholder d then Some (Message NoSpeeches)
            else placeholderText p)
     \<and> (\<forall>e. placeholderText p \<noteq> Some (LoadFailed e) \<longrightarrow> placeholderText after \<noteq> Some (LoadFailed e))
     \<and> (\<not> payload_empty records \<longrightarrow>
          speechListItems after = map renderMeetingCard (take 5 (payload_groups lc records))
          \<and> \<not> speechListHidden after)
     \<and> leagueListItems after = leagueListItems p
     \<and> (\<forall>obj. records = PayloadObject obj \<and> has_memberMetaEl d \<longrightarrow>
          (\<exists>q s m. memberMetaText after = Some (MetaCounts q s m None)))"
    using render_speechList [of records lc d slug None p]
      render_no_profile(2) [of records _ d lc slug p]
    unfolding r by (auto simp: render_placeholderText render_no_profile(1))
  show ?thesis
    by (rule conjI [OF r conjI [OF n tail]])
qed


theorem roster_failure_is_no_profile_witness:
  "truthy (Str (ascii ''a'')) \<and> ok 200 \<and> \<not> ok 503 \<and> \<not> payload_empty six_meetings
   \<and> placeholderText blank_page \<noteq> Some (LoadFailed (HttpError 503))
   \<and> placeholderText (loadData code_unit_order full_dom (Str (ascii ''a''))
         (Response 200 (Parsed six_meetings)) (FetchRejected []) blank_page) = None
   \<and> consoleErrors (loadData code_unit_order full_dom (Str (ascii ''a''))
         (Response 200 (Parsed six_meetings)) (FetchRejected []) blank_page) = []
   \<and> \<not> speechListHidden (loadData code_unit_order full_dom (Str (ascii ''a''))
         (Response 200 (Parsed six_meetings)) (FetchRejected []) blank_page)
   \<and> placeholderText (loadData code_unit_order full_dom (Str (ascii ''a''))
         (Response 200 (Parsed six_meetings)) (Response 503 (JsonRejected [])) blank_page)
       \<noteq> Some (LoadFailed (HttpError 503))"
proof -
  have s: "truthy (Str (ascii ''a''))"
    by (simp add: ascii_def)
  have o: "ok 200" and no: "\<not> ok 503"
    by (simp_all add: ok_def)
  have ne: "\<not> payload_empty six_meetings"
    by (simp add: payload_empty_def six_meetings_def)
  have b: "placeholderText blank_page = None" "consoleErrors blank_page = []"
    "has_placeholder full_dom"
    by (simp_all add: blank_page_def full_dom_def)
  note t1 = roster_failure_is_no_profile [OF s disjI1 [OF refl] o refl,
      where msg = "[]" and lc = code_unit_order and d = full_dom and records = six_meetings
        and p = blank_page]
  note t2 = roster_failure_is_no_profile [OF s disjI2 [OF conjI [OF refl no]] o refl,
      where rbody = "JsonRejected []" and lc = code_unit_order and d = full_dom
        and records = six_meetings and p = blank_page]
  note u1 = t1 [THEN conjunct2, THEN conjunct2]
  note u2 = t2 [THEN conjunct2, THEN conjunct2]
  from u1 [THEN conjunct2, THEN conjunct1] ne b
  have p1: "placeholderText (loadData code_unit_order full_dom (Str (ascii ''a''))
         (Response 200 (Parsed six_meetings)) (FetchRejected []) blank_page) = None"
    by simp
  from u1 [THEN conjunct1] b
  have c1: "consoleErrors (loadData code_unit_order full_dom (Str (ascii ''a''))
         (Response 200 (Parsed six_meetings)) (FetchRejected []) blank_page) = []"
    by simp
  from u1 [THEN conjunct2, THEN conjunct2, THEN conjunct2, THEN conjunct1] ne
  have h1: "\<not> speechListHidden (loadData code_unit_order full_dom (Str (ascii ''a''))
         (Response 200 (Parsed six_meetings)) (FetchRejected []) blank_page)"
    by simp
  from u2 [THEN conjunct2, THEN conjunct2, THEN conjunct1] b
  have p2: "placeholderText (loadData code_unit_order full_dom (Str (ascii ''a''))
         (Response 200 (Parsed six_meetings)) (Response 503 (JsonRejected [])) blank_page)
       \<noteq> Some (LoadFailed (HttpError 503))"
    by simp
  from s o no ne b p1 c1 h1 p2 show ?thesis
    by simp
qed


lemma find_profile_Some:
  assumes "entry \<in> set rosterList" and "p_slug entry = Str s"
  shows "\<exists>pr. find_profile s rosterList = Some pr \<and> pr \<in> set rosterList \<and> p_slug pr = Str s
           \<and> ((\<forall>e \<in> set rosterList. p_slug e = Str s \<longrightarrow> e = entry) \<longrightarrow> pr = entry)"
proof -
  from assms obtain pr where f: "find (\<lambda>e. p_slug e = Str s) rosterList = Some pr"
    by (cases "find (\<lambda>e. p_slug e = Str s) rosterList") (auto simp: find_None_iff)
  then have "pr \<in> set rosterList \<and> p_slug pr = Str s"
    by (auto simp: find_Some_iff)
  with f show ?thesis by (auto simp: find_profile_def)
qed

lemma loadData_fallback:
  assumes "s \<noteq> []" and "ok rstatus"
    and "find_profile s (roster_list rosterPayload) = Some pr"
  shows "loadData lc d (Str s) (Response 404 body) (Response rstatus (Parsed rosterPayload)) p
         = renderFallback d (Str s) (Some pr) p"
  using assms by (simp add: loadData_def)

lemma renderFallback_fields:
  "consoleErrors (renderFallback d slug profile p) = consoleErrors p"
  "placeholderText (renderFallback d slug profile p) = placeholderText p"
  "has_summarySection d \<Longrightarrow> summaryHtml (renderFallback d slug profile p) = Some NotRegistered"
  "has_loadMoreButton d \<Longrightarrow> loadMoreHidden (renderFallback d slug profile p)"
  "has_placeholder d \<Longrightarrow> placeholderRemoved (renderFallback d slug profile p)"
  by (simp_all add: renderFallback_def renderDisabilityLeagues_def remove_placeholder_def Let_def)

lemma renderFallback_leagues:
  "has_leagueSection d \<Longrightarrow> has_leagueList d \<Longrightarrow> profile_leagues profile \<noteq> [] \<Longrightarrow>
   leagueListItems (renderFallback d slug profile p) = profile_leagues profile
   \<and> \<not> leagueListHidden (renderFallback d slug profile p)
   \<and> \<not> leagueSectionHidden (renderFallback d slug profile p)"
  "has_leagueSection d \<Longrightarrow> has_leagueList d \<Longrightarrow> profile_leagues profile = [] \<Longrightarrow>
   leagueListHidden (renderFallback d slug profile p)
   \<and> \<not> leagueSectionHidden (renderFallback d slug profile p)
   \<and> (has_leaguePlaceholder d \<longrightarrow>
        leaguePlaceholderText (renderFallback d slug profile p) = Some NoLeagues)"
  by (simp_all add: renderFallback_def renderDisabilityLeagues_def remove_placeholder_def Let_def)

text \<open>
  C8. When the speech fetch answers 404 and the roster fetch answers with an OK status and
  a roster holding an entry with the requested slug, \<open>loadData\<close> is \<open>renderFallback\<close> of
  a roster entry with that slug (the entry itself when no other has the slug). In a document
  with the league section and list, the section is shown, with the leagues of the profile
  as its list when there are any; the summary section gets the not-yet-registered text; the
  placeholder keeps its text, so no failure text is written, and nothing is logged.
\<close>

theorem not_found_takes_fallback:
  assumes "s \<noteq> []" and "ok rstatus"
    and "entry \<in> set (roster_list rosterPayload)" and "p_slug entry = Str s"
    and "after = loadData lc d (Str s) (Response 404 body)
                   (Response rstatus (Parsed rosterPayload)) p"
  shows "\<exists>pr \<in> set (roster_list rosterPayload).
           p_slug pr = Str s
         \<and> ((\<forall>e \<in> set (roster_list rosterPayload). p_slug e = Str s \<longrightarrow> e = entry) \<longrightarrow> pr = entry)
         \<and> after = renderFallback d (Str s) (Some pr) p
         \<and> (has_leagueSection d \<and> has_leagueList d \<longrightarrow>
              \<not> leagueSectionHidden after
              \<and> (profile_leagues (Some pr) \<noteq> [] \<longrightarrow>
                   leagueListItems after = profile_leagues (Some pr) \<and> \<not> leagueListHidden after)
              \<and> (profile_leagues (Some pr) = [] \<longrightarrow> leagueListHidden after))
         \<and> (has_summarySection d \<longrightarrow> summaryHtml after = Some NotRegistered)
         \<and> placeholderText after = placeholderText p
         \<and> consoleErrors after = consoleErrors p"
proof -
  from find_profile_Some [OF assms(3,4)] obtain pr
    where f: "find_profile s (roster_list rosterPayload) = Some pr"
      and m: "pr \<in> set (roster_list rosterPayload)" and sl: "p_slug pr = Str s"
      and u: "(\<forall>e \<in> set (roster_list rosterPayload). p_slug e = Str s \<longrightarrow> e = entry) \<longrightarrow> pr = entry"
    by blast
  have a: "after = renderFallback d (Str s) (Some pr) p"
    unfolding assms(5) by (rule loadData_fallback [OF assms(1,2) f])
  have "(has_leagueSection d \<and> has_leagueList d \<longrightarrow>
              \<not> leagueSectionHidden after
              \<and> (profile_leagues (Some pr) \<noteq> [] \<longrightarrow>
                   leagueListItems after = profile_leagues (Some pr) \<and> \<not> leagueListHidden after)
              \<and> (profile_leagues (Some pr) = [] \<longrightarrow> leagueListHidden after))
         \<and> (has_summarySection d \<longrightarrow> summaryHtml after = Some NotRegistered)
         \<and> placeholderText after = placeholderText p
         \<and> consoleErrors after = consoleErrors p"
    unfolding a
    using renderFallback_leagues [of d "Some pr" "Str s" p]
    by (auto simp: renderFallback_fields)
  with m sl u a show ?thesis by blast
qed


theorem not_found_takes_fallback_witness:
  "ascii ''a'' \<noteq> [] \<and> ok 200
   \<and> profile_of (ascii ''a'') (Some 2) (Some [ascii ''L1'', ascii ''L2''])
        \<in> set (roster_list example_roster)
   \<and> p_slug (profile_of (ascii ''a'') (Some 2) (Some [ascii ''L1'', ascii ''L2''])) = Str (ascii ''a'')
   \<and> has_leagueSection full_dom \<and> has_leagueList full_dom \<and> has_summarySection full_dom
   \<and> leagueListItems (loadData code_unit_order full_dom (Str (ascii ''a''))
         (Response 404 (JsonRejected [])) (Response 200 (Parsed example_roster)) blank_page)
       = [ascii ''L1'', ascii ''L2'']
   \<and> summaryHtml (loadData code_unit_order full_dom (Str (ascii ''a''))
         (Response 404 (JsonRejected [])) (Response 200 (Parsed example_roster)) blank_page)
       = Some NotRegistered
   \<and> placeholderText (loadData code_unit_order full_dom (Str (ascii ''a''))
         (Response 404 (JsonRejected [])) (Response 200 (Parsed example_roster)) blank_page)
       = None"
proof -
  let ?entry = "profile_of (ascii ''a'') (Some 2) (Some [ascii ''L1'', ascii ''L2''])"
  let ?after = "loadData code_unit_order full_dom (Str (ascii ''a''))
         (Response 404 (JsonRejected [])) (Response 200 (Parsed example_roster)) blank_page"
  have s: "ascii ''a'' \<noteq> []"
    by (simp add: ascii_def)
  have o: "ok 200"
    by (simp add: ok_def)
  have m: "?entry \<in> set (roster_list example_roster)"
    by (simp add: roster_list_def example_roster_def)
  have sl: "p_slug ?entry = Str (ascii ''a'')"
    by (simp add: profile_of_def)
  have only: "\<forall>e \<in> set (roster_list example_roster). p_slug e = Str (ascii ''a'') \<longrightarrow> e = ?entry"
    by (simp add: roster_list_def example_roster_def profile_of_def ascii_def)
  have dm: "has_leagueSection full_dom" "has_leagueList full_dom" "has_summarySection full_dom"
    by (simp_all add: full_dom_def)
  have ls: "profile_leagues (Some ?entry) = [ascii ''L1'', ascii ''L2'']"
    by (simp add: profile_leagues_def profile_of_def)
  have b: "placeholderText blank_page = None"
    by (simp add: blank_page_def)
  from not_found_takes_fallback [OF s o m sl refl, of code_unit_order full_dom "JsonRejected []" blank_page]
  obtain pr where pr: "(\<forall>e \<in> set (roster_list example_roster). p_slug e = Str (ascii ''a'') \<longrightarrow> e = ?entry)
        \<longrightarrow> pr = ?entry"
    and l: "has_leagueSection full_dom \<and> has_leagueList full_dom \<longrightarrow>
              \<not> leagueSectionHidden ?after
              \<and> (profile_leagues (Some pr) \<noteq> [] \<longrightarrow>
                   leagueListItems ?after = profile_leagues (Some pr) \<and> \<not> leagueListHidden ?after)
              \<and> (profile_leagues (Some pr) = [] \<longrightarrow> leagueListHidden ?after)"
    and h: "has_summarySection full_dom \<longrightarrow> summaryHtml ?after = Some NotRegistered"
    and t: "placeholderText ?after = placeholderText blank_page"
    by blast
  from pr only have "pr = ?entry" ..
  with l dm ls have leagues: "leagueListItems ?after = [ascii ''L1'', ascii ''L2'']"
    by simp
  from h dm have summary: "summaryHtml ?after = Some NotRegistered"
    by simp
  from t b have ph: "placeholderText ?after = None"
    by simp
  from s o m sl dm leagues summary ph show ?thesis
    by (intro conjI)
qed


section \<open>The load-more button\<close>

lemma hidden_updateLoadMoreButton:
  "has_loadMoreButton d \<Longrightarrow> length (meetingGroups p) \<le> 5 \<Longrightarrow>
   loadMoreHidden (updateLoadMoreButton d p)"
  by (simp add: updateLoadMoreButton_def PAGE_SIZE_def)

lemma hidden_loadMore_click:
  "has_loadMoreButton d \<Longrightarrow> length (meetingGroups p) \<le> 5 \<Longrightarrow>
   loadMoreHidden (loadMore_click d p)"
  by (simp add: loadMore_click_def hidden_updateLoadMoreButton)

lemma hidden_clicks:
  "has_loadMoreButton d \<Longrightarrow> length (meetingGroups p) \<le> 5 \<Longrightarrow> loadMoreHidden p \<Longrightarrow>
   loadMoreHidden ((loadMore_click d ^^ n) p) \<and> length (meetingGroups ((loadMore_click d ^^ n) p)) \<le> 5"
  by (induction n) (simp_all add: hidden_loadMore_click)

lemma hidden_render:
  assumes "has_loadMoreButton d" and "length (payload_groups lc records) \<le> 5"
  shows "loadMoreHidden (render lc d slug records profile p)"
proof (cases "payload_empty records")
  case True
  with assms(1) show ?thesis by (simp add: render_def Let_def)
next
  case False
  with assms show ?thesis
    by (simp add: render_def Let_def hidden_updateLoadMoreButton)
qed

lemma pager_updateLoadMoreButton1 [simp]:
  "meetingGroups (updateLoadMoreButton1 d p) = meetingGroups p"
  "visibleCount (updateLoadMoreButton1 d p) = visibleCount p"
  by (simp_all add: updateLoadMoreButton1_def)

lemma hidden_updateLoadMoreButton1:
  "has_loadMoreButton d \<Longrightarrow> visibleCount p = length (meetingGroups p) \<Longrightarrow>
   loadMoreHidden (updateLoadMoreButton1 d p)"
  by (simp add: updateLoadMoreButton1_def hasMore_def)

lemma hidden_clicks1:
  "has_loadMoreButton d \<Longrightarrow> visibleCount p = length (meetingGroups p) \<Longrightarrow> loadMoreHidden p \<Longrightarrow>
   loadMoreHidden ((loadMore_click1 d ^^ n) p)
   \<and> visibleCount ((loadMore_click1 d ^^ n) p) = length (meetingGroups ((loadMore_click1 d ^^ n) p))"
  by (induction n) (simp_all add: loadMore_click1_def hidden_updateLoadMoreButton1)

lemma render1_within_page:
  assumes "has_loadMoreButton d" and "length (payload_groups lc records) \<le> 5"
    and "\<not> payload_empty records"
  shows "loadMoreHidden (render1 lc d slug records p)
     \<and> visibleCount (render1 lc d slug records p) = length (meetingGroups (render1 lc d slug records p))"
  using assms by (simp add: render1_def Let_def hidden_updateLoadMoreButton1 PAGE_SIZE_def)

lemma render1_empty:
  "payload_empty records \<Longrightarrow> loadMoreHidden (render1 lc d slug records p) = loadMoreHidden p"
  by (simp add: render1_def render_header1_def set_placeholder_def Let_def split: payload.splits)

text \<open>
  Where the button is hidden. In a document with the load-more button,
  \<open>updateLoadMoreButton\<close> of either script, run on a pager that has just been reset with at
  most 5 groups, hides the button. For a payload whose groups number at most 5 (none
  included), the button is hidden once \<open>render\<close> of the second script has run, before any
  click, and stays hidden after any number of clicks. \<open>render\<close> of the first script hides it
  likewise for such a payload with at least one group; for a payload without groups it
  returns before it reaches \<open>updateLoadMoreButton\<close>, and the button stays as the markup
  has it.
\<close>

lemma load_more_hidden_within_one_page:
  assumes "has_loadMoreButton d" and "length (payload_groups lc records) \<le> 5"
  shows "loadMoreHidden (render lc d slug records profile p)
     \<and> loadMoreHidden ((loadMore_click d ^^ n) (render lc d slug records profile p))
     \<and> (\<not> payload_empty records \<longrightarrow>
          loadMoreHidden (render1 lc d slug records p)
          \<and> loadMoreHidden ((loadMore_click1 d ^^ n) (render1 lc d slug records p)))
     \<and> (payload_empty records \<longrightarrow>
          loadMoreHidden (render1 lc d slug records p) = loadMoreHidden p)
     \<and> (length groups \<le> 5 \<longrightarrow>
          loadMoreHidden (updateLoadMoreButton d (renderVisibleGroups (reset groups p)))
          \<and> loadMoreHidden (updateLoadMoreButton1 d (renderVisibleGroups (reset groups p))))"
proof -
  have h: "loadMoreHidden (render lc d slug records profile p)"
    by (rule hidden_render [OF assms])
  have "length (meetingGroups (render lc d slug records profile p)) \<le> 5"
    using assms(2) by (cases "payload_empty records") (simp_all add: pager_render)
  from hidden_clicks [OF assms(1) this h]
  have c: "loadMoreHidden ((loadMore_click d ^^ n) (render lc d slug records profile p))"
    by simp
  have f: "loadMoreHidden (render1 lc d slug records p)
          \<and> loadMoreHidden ((loadMore_click1 d ^^ n) (render1 lc d slug records p))"
    if "\<not> payload_empty records"
    using render1_within_page [OF assms that, of slug p]
      hidden_clicks1 [OF assms(1), of "render1 lc d slug records p" n]
    by simp
  have u: "loadMoreHidden (updateLoadMoreButton d (renderVisibleGroups (reset groups p)))
          \<and> loadMoreHidden (updateLoadMoreButton1 d (renderVisibleGroups (reset groups p)))"
    if "length groups \<le> 5"
    using that assms(1)
    by (simp add: hidden_updateLoadMoreButton hidden_updateLoadMoreButton1 PAGE_SIZE_def)
  from h c f u render1_empty [of records lc d slug p] show ?thesis
    by blast
qed

lemma load_more_hidden_within_one_page_example:
  "has_loadMoreButton full_dom
   \<and> length (payload_groups code_unit_order (PayloadArray example_records)) \<le> 5
   \<and> \<not> payload_empty (PayloadArray example_records)
   \<and> \<not> loadMoreHidden blank_page
   \<and> loadMoreHidden (render code_unit_order full_dom Null (PayloadArray example_records) None
        blank_page)
   \<and> loadMoreHidden ((loadMore_click full_dom ^^ 2)
        (render code_unit_order full_dom Null (PayloadArray example_records) None blank_page))
   \<and> loadMoreHidden (render1 code_unit_order full_dom Null (PayloadArray example_records) blank_page)
   \<and> length ([] :: MeetingGroup list) \<le> 5
   \<and> loadMoreHidden (updateLoadMoreButton1 full_dom (renderVisibleGroups (reset [] blank_page)))"
proof -
  have b: "has_loadMoreButton full_dom"
    by (simp add: full_dom_def)
  have l: "length (payload_groups code_unit_order (PayloadArray example_records)) \<le> 5"
    by (simp add: payload_groups_def example_eval)
  have ne: "\<not> payload_empty (PayloadArray example_records)"
    by (simp add: payload_empty_def example_records_def)
  have v: "\<not> loadMoreHidden blank_page"
    by (simp add: blank_page_def)
  note t = load_more_hidden_within_one_page [OF b l, of Null None blank_page 2 "[]"]
  from t [THEN conjunct2, THEN conjunct2, THEN conjunct1] ne
  have first: "loadMoreHidden (render1 code_unit_order full_dom Null (PayloadArray example_records)
      blank_page)"
    by simp
  from t [THEN conjunct2, THEN conjunct2, THEN conjunct2, THEN conjunct2]
  have none: "loadMoreHidden (updateLoadMoreButton1 full_dom (renderVisibleGroups (reset [] blank_page)))"
    by simp
  have e: "length ([] :: MeetingGroup list) \<le> 5"
    by simp
  from b l ne v t [THEN conjunct1] t [THEN conjunct2, THEN conjunct1] first e none show ?thesis
    by (intro conjI)
qed

text \<open>
  C9. The first script breaks the claim on a dataset without groups. Its \<open>render\<close> sets the
  no-speeches text and returns; it neither resets the pager nor calls
  \<open>updateLoadMoreButton\<close>. On a page whose markup shows the button, the dataset has 0 groups,
  at most one page, and the button is still shown after \<open>render\<close> and after the whole
  \<open>loadData\<close>, for an empty array and for an object without meetings alike. \<open>render\<close> of
  the second script, on the same page and payloads, hides the button.
\<close>

theorem first_script_leaves_load_more_shown:
  "has_loadMoreButton full_dom
   \<and> length (payload_groups code_unit_order (PayloadArray [])) \<le> 5
   \<and> \<not> loadMoreHidden blank_page
   \<and> \<not> loadMoreHidden (render1 code_unit_order full_dom (Str (ascii ''a'')) (PayloadArray [])
          blank_page)
   \<and> \<not> loadMoreHidden (loadData1 code_unit_order full_dom (Str (ascii ''a''))
          (Response 200 (Parsed (PayloadArray []))) blank_page)
   \<and> \<not> loadMoreHidden (render1 code_unit_order full_dom (Str (ascii ''a''))
          (PayloadObject \<lparr>member_name = Undefined, meetings = Some [], written_questions = None\<rparr>)
          blank_page)
   \<and> loadMoreHidden (render code_unit_order full_dom (Str (ascii ''a'')) (PayloadArray []) None
        blank_page)
   \<and> loadMoreHidden (loadData code_unit_order full_dom (Str (ascii ''a''))
        (Response 200 (Parsed (PayloadArray []))) (FetchRejected []) blank_page)"
proof -
  have b: "has_loadMoreButton full_dom"
    by (simp add: full_dom_def)
  have v: "\<not> loadMoreHidden blank_page"
    by (simp add: blank_page_def)
  have l: "length (payload_groups code_unit_order (PayloadArray [])) \<le> 5"
    by (simp add: payload_groups_empty payload_empty_def)
  have e1: "payload_empty (PayloadArray [])"
    and e2: "payload_empty (PayloadObject
        \<lparr>member_name = Undefined, meetings = Some [], written_questions = None\<rparr>)"
    by (simp_all add: payload_empty_def)
  have s: "truthy (Str (ascii ''a''))" and o: "ok 200" and n: "(200::nat) \<noteq> 404"
    by (simp_all add: ascii_def ok_def)
  have r1: "\<not> loadMoreHidden (render1 code_unit_order full_dom (Str (ascii ''a'')) (PayloadArray [])
      blank_page)"
    using v by (simp add: render1_empty [OF e1])
  have r2: "\<not> loadMoreHidden (render1 code_unit_order full_dom (Str (ascii ''a''))
      (PayloadObject \<lparr>member_name = Undefined, meetings = Some [], written_questions = None\<rparr>)
      blank_page)"
    using v by (simp add: render1_empty [OF e2])
  have "loadData1 code_unit_order full_dom (Str (ascii ''a''))
      (Response 200 (Parsed (PayloadArray []))) blank_page
      = render1 code_unit_order full_dom (Str (ascii ''a'')) (PayloadArray []) blank_page"
    using s o n by (simp add: loadData1_def)
  with r1 have d1: "\<not> loadMoreHidden (loadData1 code_unit_order full_dom (Str (ascii ''a''))
      (Response 200 (Parsed (PayloadArray []))) blank_page)"
    by simp
  have r: "loadMoreHidden (render code_unit_order full_dom (Str (ascii ''a'')) (PayloadArray []) None
      blank_page)"
    by (rule hidden_render [OF b l])
  have "loadData code_unit_order full_dom (Str (ascii ''a''))
      (Response 200 (Parsed (PayloadArray []))) (FetchRejected []) blank_page
      = render code_unit_order full_dom (Str (ascii ''a'')) (PayloadArray []) None blank_page"
    by (rule loadData_roster_failure [OF s disjI1 [OF refl] o])
  with r have d: "loadMoreHidden (loadData code_unit_order full_dom (Str (ascii ''a''))
      (Response 200 (Parsed (PayloadArray []))) (FetchRejected []) blank_page)"
    by simp
  from b l v r1 d1 r2 r d show ?thesis
    by (intro conjI)
qed

section \<open>The summarizer of the member-detail scripts\<close>

lemma space_facts [simp]:
  "is_space space" "is_space wide_space" "\<not> is_space circle" "\<not> is_space ellipsis"
  "\<not> is_line_terminator circle" "\<not> is_line_terminator space" "\<not> is_line_terminator wide_space"
  "\<not> is_line_terminator ellipsis" "\<not> name_char space" "\<not> name_char wide_space"
  "circle \<noteq> space" "circle \<noteq> wide_space" "space \<noteq> circle" "wide_space \<noteq> circle"
  by (simp_all add: is_space_def is_line_terminator_def name_char_def space_def wide_space_def
      circle_def ellipsis_def)

lemma line_terminator_is_space: "is_line_terminator c \<Longrightarrow> is_space c \<and> c \<noteq> space"
  by (auto simp: is_line_terminator_def is_space_def space_def)

lemma not_name_char_is_space: "\<not> name_char c \<Longrightarrow> is_space c"
  by (auto simp: name_char_def)

subsection \<open>Collapsing white space\<close>

lemma collapse_only_space:
  "c \<in> set (collapse_spaces prev s) \<Longrightarrow> is_space c \<Longrightarrow> c = space"
  by (induction s arbitrary: prev) (auto split: if_splits)

lemma collapse_head:
  "collapse_spaces True s = x # xs \<Longrightarrow> \<not> is_space x"
  by (induction s) (auto split: if_splits)

lemma collapse_successively:
  "successively (\<lambda>a b. \<not> (is_space a \<and> is_space b)) (collapse_spaces prev s)"
proof (induction s arbitrary: prev)
  case Nil
  show ?case by simp
next
  case (Cons c cs)
  show ?case
  proof (cases "is_space c")
    case True
    show ?thesis
    proof (cases prev)
      case True
      with \<open>is_space c\<close> Cons.IH [of True] show ?thesis by simp
    next
      case False
      have "successively (\<lambda>a b. \<not> (is_space a \<and> is_space b)) (space # collapse_spaces True cs)"
        using Cons.IH [of True] collapse_head [of cs]
        by (cases "collapse_spaces True cs") (auto simp: successively_Cons)
      with False \<open>is_space c\<close> show ?thesis by simp
    qed
  next
    case False
    with Cons.IH [of False] show ?thesis by (simp add: successively_Cons)
  qed
qed

subsection \<open>Trimming\<close>

lemma trim_decomp:
  "s = takeWhile is_space s @ trim s @ rev (takeWhile is_space (rev (dropWhile is_space s)))"
proof -
  let ?ys = "dropWhile is_space s"
  have "rev ?ys = takeWhile is_space (rev ?ys) @ dropWhile is_space (rev ?ys)"
    by simp
  then have "?ys = rev (dropWhile is_space (rev ?ys)) @ rev (takeWhile is_space (rev ?ys))"
    by (metis rev_append rev_rev_ident)
  then have "?ys = trim s @ rev (takeWhile is_space (rev ?ys))"
    by (simp add: trim_def)
  moreover have "s = takeWhile is_space s @ ?ys" by simp
  ultimately show ?thesis by metis
qed

lemma trim_ends:
  assumes "trim s \<noteq> []"
  shows "\<not> is_space (hd (trim s))" and "\<not> is_space (last (trim s))"
proof -
  let ?ys = "dropWhile is_space s"
  let ?zs = "dropWhile is_space (rev ?ys)"
  have t: "trim s = rev ?zs" by (simp add: trim_def)
  with assms have z: "?zs \<noteq> []" by simp
  then have "\<not> is_space (hd ?zs)" by (rule hd_dropWhile)
  with z show "\<not> is_space (last (trim s))" by (simp add: t last_rev)
  have y: "?ys \<noteq> []"
  proof
    assume "?ys = []"
    then have "?zs = []" by (simp only: rev.simps dropWhile.simps)
    with z show False by simp
  qed
  then have hy: "\<not> is_space (hd ?ys)" by (rule hd_dropWhile)
  have "?ys = trim s @ rev (takeWhile is_space (rev ?ys))"
    using trim_decomp [of s] by (metis append_same_eq takeWhile_dropWhile_id same_append_eq)
  with assms have "hd ?ys = hd (trim s)" by (metis hd_append2)
  with hy show "\<not> is_space (hd (trim s))" by simp
qed

lemma set_trim: "set (trim s) \<subseteq> set s"
  using trim_decomp [of s] by (metis Un_iff set_append subsetI)

lemma trim_successively:
  "successively P s \<Longrightarrow> successively P (trim s)"
  using trim_decomp [of s] by (metis successively_append_iff)


subsection \<open>Speaker markers\<close>

lemma marker_leads_simps [simp]:
  "marker_leads [] = False"
  "is_space c \<Longrightarrow> marker_leads (c # cs) = marker_leads cs"
  "\<not> is_space c \<Longrightarrow> c \<noteq> circle \<Longrightarrow> marker_leads (c # cs) = False"
  "marker_leads (circle # cs) = (case cs of [] \<Rightarrow> False | n # _ \<Rightarrow> \<not> is_space n)"
  by (simp_all add: marker_leads_def split: list.splits)

lemma strip_no_leading_marker:
  "circles_clear_of_blanks blank s \<Longrightarrow>
   mode = Name \<or> (mode = Line b \<and> (\<forall>cs. s = circle # cs \<longrightarrow> b)) \<Longrightarrow>
   \<not> marker_leads (strip_markers mode s)"
proof (induction mode s arbitrary: blank b rule: strip_markers.induct)
  case (1 mode)
  show ?case by simp
next
  case (2 b' c cs)
  then have b: "b' = b" and start: "c = circle \<longrightarrow> b'" by simp_all
  from "2.prems"(1) have rest: "circles_clear_of_blanks (is_space c \<and> \<not> is_line_terminator c) cs"
    by simp
  show ?case
  proof (cases "b' \<and> c = circle \<and> (case cs of [] \<Rightarrow> False | n # _ \<Rightarrow> name_char n)")
    case True
    have "strip_markers (Line b') (c # cs) = strip_markers Name cs"
      unfolding strip_markers.simps using True by (rule if_P)
    with "2.IH"(1) [OF True rest] show ?thesis by simp
  next
    case False
    have eq: "strip_markers (Line b') (c # cs) = c # strip_markers (Line (is_line_terminator c)) cs"
      unfolding strip_markers.simps using False by (rule if_not_P)
    show ?thesis
    proof (cases "is_space c")
      case True
      have "\<forall>cs'. cs = circle # cs' \<longrightarrow> is_line_terminator c"
      proof (intro allI impI)
        fix cs' assume "cs = circle # cs'"
        with rest True show "is_line_terminator c" by auto
      qed
      with "2.IH"(2) [OF False rest, of "is_line_terminator c"]
      have "\<not> marker_leads (strip_markers (Line (is_line_terminator c)) cs)" by simp
      with True show ?thesis unfolding eq by simp
    next
      case ns: False
      show ?thesis
      proof (cases "c = circle")
        case True
        with start False have "case cs of [] \<Rightarrow> True | n # _ \<Rightarrow> \<not> name_char n"
          by (cases cs) simp_all
        then have "case strip_markers (Line False) cs of [] \<Rightarrow> True | n # _ \<Rightarrow> is_space n"
          by (cases cs) (simp_all add: not_name_char_is_space)
        with True show ?thesis unfolding eq by (simp split: list.splits)
      next
        case False
        with ns show ?thesis unfolding eq by simp
      qed
    qed
  qed
next
  case (3 c cs)
  from "3.prems"(1) have rest: "circles_clear_of_blanks (is_space c \<and> \<not> is_line_terminator c) cs"
    by simp
  show ?case
  proof (cases "c = wide_space")
    case True
    with rest have r: "circles_clear_of_blanks True cs" by simp
    then have "\<forall>cs'. cs = circle # cs' \<longrightarrow> False" by auto
    with "3.IH"(1) [OF True r, of False] True show ?thesis by simp
  next
    case False
    show ?thesis
    proof (cases "c = space")
      case True
      with rest have r: "circles_clear_of_blanks True cs" by simp
      then have "\<forall>cs'. cs = circle # cs' \<longrightarrow> False" by auto
      with "3.IH"(2) [OF False True r, of False] False True show ?thesis by simp
    next
      case nsp: False
      from "3.IH"(3) [OF False nsp rest] False nsp show ?thesis by simp
    qed
  qed
qed

lemma dropWhile_collapse:
  "dropWhile is_space (collapse_spaces prev s) = collapse_spaces False (dropWhile is_space s)"
  by (induction s arbitrary: prev) simp_all

lemma trim_prefix: "\<exists>b. dropWhile is_space s = trim s @ b"
  using trim_decomp [of s] by (metis takeWhile_dropWhile_id same_append_eq)

lemma clean_no_leading_marker:
  assumes "\<not> marker_leads st" and "trim (collapse_spaces False st) = c # n # r"
  shows "c = circle \<longrightarrow> \<not> name_char n"
proof -
  from trim_prefix [of "collapse_spaces False st"] obtain b
    where "dropWhile is_space (collapse_spaces False st) = trim (collapse_spaces False st) @ b" ..
  with assms(2) have d: "collapse_spaces False (dropWhile is_space st) = c # n # r @ b"
    by (simp add: dropWhile_collapse)
  show ?thesis
  proof
    assume circ: "c = circle"
    show "\<not> name_char n"
    proof (cases "dropWhile is_space st")
      case Nil
      with d show ?thesis by simp
    next
      case (Cons x xs)
      then have nx: "\<not> is_space x" by (metis hd_dropWhile list.sel(1) list.distinct(1))
      with d Cons have x: "x = c" and xs: "collapse_spaces False xs = n # r @ b" by simp_all
      show ?thesis
      proof (cases xs)
        case Nil
        with xs show ?thesis by simp
      next
        case c2: (Cons y ys)
        from assms(1) Cons c2 x circ have "is_space y"
          by (simp add: marker_leads_def)
        with xs c2 have "n = space" by simp
        then show ?thesis by simp
      qed
    qed
  qed
qed

lemma marker_without_terminators:
  "\<forall>c \<in> set s. \<not> is_line_terminator c \<Longrightarrow>
   marker_at_line_start b s
   = (b \<and> (case s of c # n # _ \<Rightarrow> c = circle \<and> name_char n | _ \<Rightarrow> False))"
proof (induction s arbitrary: b)
  case Nil
  show ?case by simp
next
  case (Cons c cs)
  from Cons.prems have nt: "\<not> is_line_terminator c" by simp
  from Cons have "marker_at_line_start (is_line_terminator c) cs = False" by simp
  with nt show ?case by (cases cs) simp_all
qed

lemma clean_text_facts:
  "circles_clear_of_blanks False s \<Longrightarrow> clean_text s = c # n # r \<Longrightarrow> c = circle \<longrightarrow> \<not> name_char n"
  "\<forall>c \<in> set (clean_text s). is_space c \<longrightarrow> c = space"
  "successively (\<lambda>a b. \<not> (is_space a \<and> is_space b)) (clean_text s)"
  "clean_text s \<noteq> [] \<Longrightarrow> \<not> is_space (hd (clean_text s)) \<and> \<not> is_space (last (clean_text s))"
proof -
  show "circles_clear_of_blanks False s \<Longrightarrow> clean_text s = c # n # r \<Longrightarrow> c = circle \<longrightarrow> \<not> name_char n"
    unfolding clean_text_def
    using clean_no_leading_marker [OF strip_no_leading_marker [of False s "Line True" True]]
    by simp
  show "\<forall>c \<in> set (clean_text s). is_space c \<longrightarrow> c = space"
    unfolding clean_text_def using set_trim collapse_only_space by blast
  show "successively (\<lambda>a b. \<not> (is_space a \<and> is_space b)) (clean_text s)"
    unfolding clean_text_def by (intro trim_successively collapse_successively)
  show "clean_text s \<noteq> [] \<Longrightarrow> \<not> is_space (hd (clean_text s)) \<and> \<not> is_space (last (clean_text s))"
    unfolding clean_text_def using trim_ends by blast
qed

lemma extractSummary_Str:
  "extractSummary (Str s)
   = take 100 (clean_text s) @ (if 100 < length (clean_text s) then [ellipsis] else [])"
  by (cases s) (simp_all add: extractSummary_def clean_text_def trim_def Let_def)

lemma successively_take: "successively P xs \<Longrightarrow> successively P (take n xs)"
  by (metis append_take_drop_id successively_append_iff)

lemma no_marker_in_summary:
  assumes "\<And>a n r. c = a # n # r \<Longrightarrow> a = circle \<longrightarrow> \<not> name_char n"
    and "\<forall>x \<in> set c. is_space x \<longrightarrow> x = space"
  shows "\<not> marker_at_line_start True (take 100 c @ (if 100 < length c then [ellipsis] else []))"
proof -
  let ?out = "take 100 c @ (if 100 < length c then [ellipsis] else [])"
  have "\<forall>x \<in> set ?out. \<not> is_line_terminator x"
  proof
    fix x assume "x \<in> set ?out"
    then have "x = ellipsis \<or> x \<in> set c"
      by (auto split: if_splits dest: in_set_takeD)
    with assms(2) show "\<not> is_line_terminator x"
      using line_terminator_is_space [of x] by auto
  qed
  then have m: "marker_at_line_start True ?out
      = (case ?out of a # n # _ \<Rightarrow> a = circle \<and> name_char n | _ \<Rightarrow> False)"
    by (simp only: marker_without_terminators simp_thms)
  show ?thesis
  proof (cases c)
    case Nil
    then show ?thesis by simp
  next
    case c1: (Cons a r)
    show ?thesis
    proof (cases r)
      case Nil
      with c1 show ?thesis by simp
    next
      case (Cons n r')
      with c1 assms(1) [of a n r'] have "a = circle \<longrightarrow> \<not> name_char n" by simp
      moreover have "?out = a # n # (take 98 r' @ (if 100 < length c then [ellipsis] else []))"
        using c1 Cons by simp
      ultimately show ?thesis unfolding m by simp
    qed
  qed
qed

text \<open>
  C5, as amended. An absent, null or empty text gives the empty string. For every text the
  summary is the cleaned text when that has at most 100 code units, and else its first 100
  code units followed by one ellipsis, so it has at most 101 code units. In the summary
  every white-space code unit is an ASCII space, no two of them are adjacent, and none
  stands first or last. When no white circle of the text stands directly behind a white-space
  code unit other than a line terminator (so when every circle stands at the start of a
  line), the marker pattern occurs at no start of a line of the summary.
\<close>

theorem summary_collapsed_trimmed_truncated:
  "extractSummary Undefined = [] \<and> extractSummary Null = [] \<and> extractSummary (Str []) = []
   \<and> length (extractSummary (Str s)) \<le> 101
   \<and> (length (clean_text s) \<le> 100 \<longrightarrow> extractSummary (Str s) = clean_text s)
   \<and> (100 < length (clean_text s) \<longrightarrow>
        extractSummary (Str s) = take 100 (clean_text s) @ [ellipsis])
   \<and> (\<forall>c \<in> set (extractSummary (Str s)). is_space c \<longrightarrow> c = space)
   \<and> successively (\<lambda>a b. \<not> (is_space a \<and> is_space b)) (extractSummary (Str s))
   \<and> (extractSummary (Str s) \<noteq> [] \<longrightarrow>
        \<not> is_space (hd (extractSummary (Str s))) \<and> \<not> is_space (last (extractSummary (Str s))))
   \<and> (circles_clear_of_blanks False s \<longrightarrow>
        \<not> marker_at_line_start True (extractSummary (Str s)))"
proof -
  let ?c = "clean_text s"
  note e = extractSummary_Str [of s]
  have falsy: "extractSummary Undefined = [] \<and> extractSummary Null = [] \<and> extractSummary (Str []) = []"
    by (simp add: extractSummary_def)
  have len: "length (extractSummary (Str s)) \<le> 101"
    unfolding e by simp
  have short: "length ?c \<le> 100 \<longrightarrow> extractSummary (Str s) = ?c"
    unfolding e by simp
  have long: "100 < length ?c \<longrightarrow> extractSummary (Str s) = take 100 ?c @ [ellipsis]"
    unfolding e by simp
  have only: "\<forall>c \<in> set (extractSummary (Str s)). is_space c \<longrightarrow> c = space"
    unfolding e using clean_text_facts(2) [of s]
    by (auto split: if_splits dest: in_set_takeD)
  have single: "successively (\<lambda>a b. \<not> (is_space a \<and> is_space b)) (extractSummary (Str s))"
    unfolding e using successively_take [OF clean_text_facts(3) [of s], of 100]
    by (simp add: successively_append_iff)
  have ends: "extractSummary (Str s) \<noteq> [] \<longrightarrow>
        \<not> is_space (hd (extractSummary (Str s))) \<and> \<not> is_space (last (extractSummary (Str s)))"
  proof
    assume ne: "extractSummary (Str s) \<noteq> []"
    then have cne: "?c \<noteq> []" unfolding e by auto
    from clean_text_facts(4) [OF cne] have h: "\<not> is_space (hd ?c)" and l: "\<not> is_space (last ?c)"
      by simp_all
    from cne have "hd (extractSummary (Str s)) = hd ?c"
      unfolding e by (cases ?c) simp_all
    moreover have "\<not> is_space (last (extractSummary (Str s)))"
      using l unfolding e by simp
    ultimately show "\<not> is_space (hd (extractSummary (Str s))) \<and> \<not> is_space (last (extractSummary (Str s)))"
      using h by simp
  qed
  have marker: "circles_clear_of_blanks False s \<longrightarrow>
      \<not> marker_at_line_start True (extractSummary (Str s))"
  proof
    assume clear: "circles_clear_of_blanks False s"
    show "\<not> marker_at_line_start True (extractSummary (Str s))"
      unfolding e
      by (rule no_marker_in_summary [OF clean_text_facts(1) [OF clear] clean_text_facts(2)])
  qed
  from falsy len short long only single ends marker show ?thesis
    by blast
qed

text \<open>
  The claim as stated fails for a text whose marker has white space in front of it: the
  pattern is anchored at the start of a line, so the marker of the text (space, circle,
  letter) stays, and the trimmed summary starts with it.
\<close>

theorem extractSummary_marker_counterexample:
  "marker_at_line_start True (extractSummary (Str [0x20, 0x25CB, 0x61]))"
  by (simp add: extractSummary_def clean_text_def trim_def circle_def wide_space_def space_def
      name_char_def is_space_def is_line_terminator_def)



subsection \<open>Texts without circle and white space\<close>

lemma strip_plain: "circle \<notin> set s \<Longrightarrow> strip_markers (Line b) s = s"
  by (induction s arbitrary: b) auto

lemma collapse_plain: "\<forall>c \<in> set s. \<not> is_space c \<Longrightarrow> collapse_spaces prev s = s"
  by (induction s arbitrary: prev) auto

lemma trim_plain: "\<forall>c \<in> set s. \<not> is_space c \<Longrightarrow> trim s = s"
proof -
  assume a: "\<forall>c \<in> set s. \<not> is_space c"
  then have "dropWhile is_space s = s"
    by (cases s) simp_all
  moreover from a have "dropWhile is_space (rev s) = rev s"
    by (cases "rev s") (simp, metis dropWhile.simps(2) list.set_intros(1) set_rev)
  ultimately show ?thesis by (simp add: trim_def)
qed

lemma clean_text_plain:
  "circle \<notin> set s \<Longrightarrow> \<forall>c \<in> set s. \<not> is_space c \<Longrightarrow> clean_text s = s"
  by (simp add: clean_text_def strip_plain collapse_plain trim_plain)

lemmas summary_eval =
  extractSummary_def clean_text_def trim_def circle_def wide_space_def space_def name_char_def
  is_space_def is_line_terminator_def ellipsis_def marked_speech_def

theorem summary_collapsed_trimmed_truncated_witness:
  "length (clean_text marked_speech) \<le> 100
   \<and> extractSummary (Str marked_speech) = [0x3053, 0x3093, 0x20, 0x306B, 0x3061, 0x306F, 0x3002]
   \<and> space \<in> set (extractSummary (Str marked_speech)) \<and> is_space space
   \<and> extractSummary (Str marked_speech) \<noteq> []
   \<and> \<not> is_space (hd (extractSummary (Str marked_speech)))
   \<and> circles_clear_of_blanks False marked_speech
   \<and> \<not> marker_at_line_start True (extractSummary (Str marked_speech))
   \<and> 100 < length (clean_text (replicate 101 0x61))
   \<and> extractSummary (Str (replicate 101 0x61)) = replicate 100 0x61 @ [ellipsis]"
proof -
  have c: "clean_text marked_speech = [0x3053, 0x3093, 0x20, 0x306B, 0x3061, 0x306F, 0x3002]"
    by (simp add: summary_eval)
  then have short: "length (clean_text marked_speech) \<le> 100"
    by simp
  have starts: "circles_clear_of_blanks False marked_speech"
    by (simp add: marked_speech_def circle_def is_space_def is_line_terminator_def)
  have plain: "clean_text (replicate 101 0x61) = replicate 101 0x61"
    by (rule clean_text_plain) (simp_all add: circle_def is_space_def)
  then have long: "100 < length (clean_text (replicate 101 0x61))"
    by simp
  note t = summary_collapsed_trimmed_truncated [of marked_speech,
      THEN conjunct2, THEN conjunct2, THEN conjunct2, THEN conjunct2]
  note u = summary_collapsed_trimmed_truncated [of "replicate 101 0x61",
      THEN conjunct2, THEN conjunct2, THEN conjunct2, THEN conjunct2]
  from t [THEN conjunct1] short c
  have out: "extractSummary (Str marked_speech) = [0x3053, 0x3093, 0x20, 0x306B, 0x3061, 0x306F, 0x3002]"
    by simp
  then have sp: "space \<in> set (extractSummary (Str marked_speech))"
    and ne: "extractSummary (Str marked_speech) \<noteq> []"
    by (simp_all add: space_def)
  from t [THEN conjunct2, THEN conjunct2, THEN conjunct2, THEN conjunct2, THEN conjunct1] ne
  have h: "\<not> is_space (hd (extractSummary (Str marked_speech)))"
    by simp
  from t [THEN conjunct2, THEN conjunct2, THEN conjunct2, THEN conjunct2, THEN conjunct2] starts
  have nm: "\<not> marker_at_line_start True (extractSummary (Str marked_speech))"
    by simp
  from u [THEN conjunct2, THEN conjunct1] long plain
  have cut: "extractSummary (Str (replicate 101 0x61)) = replicate 100 0x61 @ [ellipsis]"
    by simp
  from short out sp ne h starts nm long cut show ?thesis
    by simp
qed


section \<open>The summarizer of the single-table view\<close>

lemma split_not_Nil [simp]: "split sep s \<noteq> []"
  by (induction s) (auto split: list.splits)

lemma split_plain: "sep \<notin> set a \<Longrightarrow> split sep a = [a]"
  by (induction a) auto

lemma split_append: "sep \<notin> set a \<Longrightarrow> split sep (a @ sep # r) = a # split sep r"
  by (induction a) auto

lemma split_stops: "split sep (replicate n sep @ r) = replicate n [] @ split sep r"
  by (induction n) auto

lemma sentences_stops:
  "filter (\<lambda>part. part \<noteq> []) (split sep (replicate n sep @ r))
   = filter (\<lambda>part. part \<noteq> []) (split sep r)"
  by (simp add: split_stops)

lemma sentences_head:
  "sep \<notin> set a \<Longrightarrow> a \<noteq> [] \<Longrightarrow>
   filter (\<lambda>part. part \<noteq> []) (split sep (a @ sep # r))
   = a # filter (\<lambda>part. part \<noteq> []) (split sep r)"
  by (simp add: split_append)

lemma hino_Str:
  "extractSummary_hino (Str t)
   = (let parts = filter (\<lambda>part. part \<noteq> []) (split full_stop (clean_text t));
          firstTwo = join full_stop (take 2 parts)
      in trim (if firstTwo \<noteq> [] then firstTwo @ [full_stop] else clean_text t))"
  by (cases t) (simp_all add: extractSummary_hino_def clean_text_def trim_def Let_def)

lemma trim_idem: "trim (trim s) = trim s"
proof (cases "trim s = []")
  case True
  have "trim [] = []" by (simp add: trim_def)
  with True show ?thesis by simp
next
  case False
  from trim_ends [OF False] have h: "\<not> is_space (hd (trim s))" and l: "\<not> is_space (last (trim s))"
    by simp_all
  from False h have "dropWhile is_space (trim s) = trim s"
    by (cases "trim s") simp_all
  moreover from False l have "dropWhile is_space (rev (trim s)) = rev (trim s)"
    by (cases "rev (trim s)") (simp_all add: last_rev [symmetric] hd_rev)
  ultimately show ?thesis by (simp add: trim_def)
qed

lemma trim_clean_text: "trim (clean_text t) = clean_text t"
  by (simp add: clean_text_def trim_idem)

text \<open>
  C6, as amended. An absent, null or empty text gives the empty string. Otherwise the
  summary of the single-table view is made of the first two non-empty segments of the
  cleaned text between full stops: when the cleaned text is any number of full stops, a
  segment, a full stop, any number of full stops, a second segment, and then nothing or a
  full stop and anything, the summary is the two segments whole, each followed by one full
  stop, trimmed; when it has one non-empty segment only, the summary is that segment and a
  full stop, trimmed; when it has none, the summary is the cleaned text. No code unit of a
  segment is cut.
\<close>

theorem hino_first_two_sentences:
  "extractSummary_hino Undefined = [] \<and> extractSummary_hino Null = []
   \<and> extractSummary_hino (Str []) = []
   \<and> (full_stop \<notin> set s1 \<and> full_stop \<notin> set s2 \<and> s1 \<noteq> [] \<and> s2 \<noteq> []
        \<and> (rest = [] \<or> hd rest = full_stop)
        \<and> clean_text t = replicate n full_stop @ s1 @ full_stop # replicate k full_stop @ s2 @ rest
       \<longrightarrow> extractSummary_hino (Str t) = trim (s1 @ full_stop # s2 @ [full_stop]))
   \<and> (full_stop \<notin> set s1 \<and> s1 \<noteq> []
        \<and> clean_text t = replicate n full_stop @ s1 @ replicate k full_stop
       \<longrightarrow> extractSummary_hino (Str t) = trim (s1 @ [full_stop]))
   \<and> (clean_text t = replicate n full_stop \<longrightarrow> extractSummary_hino (Str t) = clean_text t)"
proof -
  let ?sentences = "\<lambda>s. filter (\<lambda>part. part \<noteq> []) (split full_stop s)"
  have falsy: "extractSummary_hino Undefined = [] \<and> extractSummary_hino Null = []
      \<and> extractSummary_hino (Str []) = []"
    by (simp add: extractSummary_hino_def)
  have two: "extractSummary_hino (Str t) = trim (s1 @ full_stop # s2 @ [full_stop])"
    if "full_stop \<notin> set s1" "full_stop \<notin> set s2" "s1 \<noteq> []" "s2 \<noteq> []"
      "rest = [] \<or> hd rest = full_stop"
      "clean_text t = replicate n full_stop @ s1 @ full_stop # replicate k full_stop @ s2 @ rest"
  proof -
    have "\<exists>more. ?sentences (s2 @ rest) = s2 # more"
    proof (cases rest)
      case Nil
      with that(2,4) show ?thesis by (simp add: split_plain)
    next
      case (Cons x xs)
      with that(5) have "rest = full_stop # xs" by simp
      with that(2,4) show ?thesis by (simp add: split_append)
    qed
    then obtain more where more: "?sentences (s2 @ rest) = s2 # more" ..
    have "?sentences (clean_text t)
        = ?sentences (s1 @ full_stop # (replicate k full_stop @ s2 @ rest))"
      unfolding that(6) by (rule sentences_stops)
    also have "\<dots> = s1 # ?sentences (replicate k full_stop @ s2 @ rest)"
      using that(1,3) by (rule sentences_head)
    also have "?sentences (replicate k full_stop @ s2 @ rest) = ?sentences (s2 @ rest)"
      by (rule sentences_stops)
    finally have "?sentences (clean_text t) = s1 # s2 # more"
      using more by simp
    then show ?thesis
      by (simp add: hino_Str)
  qed
  have one: "extractSummary_hino (Str t) = trim (s1 @ [full_stop])"
    if "full_stop \<notin> set s1" "s1 \<noteq> []"
      "clean_text t = replicate n full_stop @ s1 @ replicate k full_stop"
  proof -
    have "?sentences (s1 @ replicate k full_stop) = [s1]"
    proof (cases k)
      case 0
      with that(1,2) show ?thesis by (simp add: split_plain)
    next
      case (Suc j)
      have "?sentences (s1 @ full_stop # replicate j full_stop @ []) = s1 # ?sentences (replicate j full_stop @ [])"
        using that(1,2) by (rule sentences_head)
      also have "?sentences (replicate j full_stop @ []) = []"
        by (simp only: sentences_stops) simp
      finally show ?thesis using Suc by simp
    qed
    moreover have "?sentences (clean_text t) = ?sentences (s1 @ replicate k full_stop)"
      unfolding that(3) by (rule sentences_stops)
    ultimately have "?sentences (clean_text t) = [s1]"
      by simp
    with that(2) show ?thesis
      by (simp add: hino_Str)
  qed
  have none: "extractSummary_hino (Str t) = clean_text t" if "clean_text t = replicate n full_stop"
  proof -
    have "?sentences (replicate n full_stop @ []) = []"
      by (simp only: sentences_stops) simp
    then have "?sentences (clean_text t) = []"
      unfolding that by simp
    then show ?thesis
      by (simp add: hino_Str trim_clean_text)
  qed
  from falsy two one none show ?thesis
    by blast
qed


lemmas hino_eval =
  extractSummary_hino_def clean_text_def trim_def circle_def wide_space_def space_def
  name_char_def is_space_def is_line_terminator_def full_stop_def three_sentences_def
  first_two_segments_def Let_def

text \<open>
  The claim as stated fails. Read with every segment of the split, it fails for a text of
  one sentence ending in a full stop: \<open>filter(Boolean)\<close> drops the empty segment behind the
  full stop, and the summary keeps one full stop, not two. Read with the non-empty segments
  only, it fails for a text of two full stops, which has no such segment: the summary is the
  cleaned text, not a single full stop. Read either way, it fails for a text of white space
  only, whose summary is empty and has no full stop.
\<close>

theorem hino_first_two_segments_counterexample:
  "extractSummary_hino (Str [0x61, 0x3002]) \<noteq> first_two_segments (clean_text [0x61, 0x3002])
   \<and> extractSummary_hino (Str [0x3002, 0x3002]) \<noteq> first_two_sentences (clean_text [0x3002, 0x3002])
   \<and> extractSummary_hino (Str [0x20]) \<noteq> first_two_segments (clean_text [0x20])
   \<and> extractSummary_hino (Str [0x20]) \<noteq> first_two_sentences (clean_text [0x20])"
  by (simp add: hino_eval first_two_sentences_def)

theorem hino_first_two_sentences_witness:
  "full_stop \<notin> set [0x3053, 0x3093] \<and> full_stop \<notin> set [0x6B21, 0x3082]
   \<and> hd [full_stop, 0x307E, 0x305F, full_stop] = full_stop
   \<and> clean_text three_sentences
       = replicate 0 full_stop @ [0x3053, 0x3093] @ full_stop # replicate 0 full_stop
         @ [0x6B21, 0x3082] @ [full_stop, 0x307E, 0x305F, full_stop]
   \<and> extractSummary_hino (Str three_sentences) = [0x3053, 0x3093, 0x3002, 0x6B21, 0x3082, 0x3002]
   \<and> clean_text [0x61, 0x3002] = replicate 0 full_stop @ [0x61] @ replicate 1 full_stop
   \<and> extractSummary_hino (Str [0x61, 0x3002]) = [0x61, 0x3002]
   \<and> clean_text [0x20] = replicate 0 full_stop
   \<and> extractSummary_hino (Str [0x20]) = []"
proof -
  have a: "full_stop \<notin> set [0x3053, 0x3093]" "full_stop \<notin> set [0x6B21, 0x3082]"
    "[0x3053, 0x3093] \<noteq> ([] :: jsstring)" "[0x6B21, 0x3082] \<noteq> ([] :: jsstring)"
    "[full_stop, 0x307E, 0x305F, full_stop] = [] \<or> hd [full_stop, 0x307E, 0x305F, full_stop] = full_stop"
    by (simp_all add: full_stop_def)
  have c3: "clean_text three_sentences
       = replicate 0 full_stop @ [0x3053, 0x3093] @ full_stop # replicate 0 full_stop
         @ [0x6B21, 0x3082] @ [full_stop, 0x307E, 0x305F, full_stop]"
    by (simp add: hino_eval)
  have b: "full_stop \<notin> set [0x61]" "[0x61] \<noteq> ([] :: jsstring)"
    by (simp_all add: full_stop_def)
  have c1: "clean_text [0x61, 0x3002] = replicate 0 full_stop @ [0x61] @ replicate 1 full_stop"
    by (simp add: hino_eval)
  have c0: "clean_text [0x20] = replicate 0 full_stop"
    by (simp add: hino_eval)
  have t3: "trim ([0x3053, 0x3093] @ full_stop # [0x6B21, 0x3082] @ [full_stop])
      = [0x3053, 0x3093, 0x3002, 0x6B21, 0x3082, 0x3002]"
    and t1: "trim ([0x61] @ [full_stop]) = [0x61, 0x3002]"
    by (simp_all add: trim_def is_space_def full_stop_def)
  note t = hino_first_two_sentences [THEN conjunct2, THEN conjunct2, THEN conjunct2]
  from t [THEN conjunct1, of "[0x3053, 0x3093]" "[0x6B21, 0x3082]"
      "[full_stop, 0x307E, 0x305F, full_stop]" three_sentences 0 0] a c3 t3
  have r3: "extractSummary_hino (Str three_sentences) = [0x3053, 0x3093, 0x3002, 0x6B21, 0x3082, 0x3002]"
    by simp
  from t [THEN conjunct2, THEN conjunct1, of "[0x61]" "[0x61, 0x3002]" 0 1] b c1 t1
  have r1: "extractSummary_hino (Str [0x61, 0x3002]) = [0x61, 0x3002]"
    by simp
  from t [THEN conjunct2, THEN conjunct2, of "[0x20]" 0] c0
  have r0: "extractSummary_hino (Str [0x20]) = []"
    by simp
  from a c3 r3 c1 r1 c0 r0 show ?thesis
    by simp
qed

end
